(* ===== verification/Prelude.thy ===== *)
theory Prelude
  imports Main "HOL-Library.Word"
begin

text \<open>
  Shared vocabulary of the development: bytes and buffers, the host the C++ code is compiled
  for, the object representation of machine integers (what \<open>std::memcpy\<close> and
  \<open>reinterpret_cast\<close> read and write), reads and writes at an offset of a buffer, and the
  list and word lemmas the components share.

  Collections: \<open>layout_simps\<close> rewrites buffer accesses, \<open>size_simps\<close> computes lengths.
\<close>

unbundle bit_operations_syntax

named_theorems layout_simps
named_theorems size_simps

type_synonym byte = "8 word"
type_synonym bytes = "byte list"

section \<open>The host\<close>

text \<open>
  The sources copy integers to and from byte buffers with \<open>std::memcpy\<close> and
  \<open>reinterpret_cast\<close>, so byte order is the host's. One expression of the sources shifts a
  64-bit one by 64 places, which C++ leaves undefined; the value the compiled code gets there is
  the other field (an x86-64 shift instruction yields 1).
\<close>

datatype endian = LittleEndian | BigEndian

record host =
  host_endian :: endian
  host_shl64 :: "64 word"

definition x86_64 :: host where
  "x86_64 = \<lparr>host_endian = LittleEndian, host_shl64 = 1\<rparr>"

section \<open>Words and their bytes\<close>

definition le_bytes :: "nat \<Rightarrow> 'a::len word \<Rightarrow> bytes" where
  "le_bytes n w = map (\<lambda>i. ucast (drop_bit (8 * i) w)) [0..<n]"

fun le_word :: "bytes \<Rightarrow> 'a::len word" where
  "le_word [] = 0"
| "le_word (b # bs) = ucast b OR push_bit 8 (le_word bs)"

definition mem_store :: "host \<Rightarrow> 'a::len word \<Rightarrow> bytes" where
  "mem_store H w =
     (case host_endian H of
        LittleEndian \<Rightarrow> le_bytes (LENGTH('a) div 8) w
      | BigEndian \<Rightarrow> rev (le_bytes (LENGTH('a) div 8) w))"

definition mem_load :: "host \<Rightarrow> bytes \<Rightarrow> 'a::len word" where
  "mem_load H bs =
     (case host_endian H of LittleEndian \<Rightarrow> le_word bs | BigEndian \<Rightarrow> le_word (rev bs))"

lemma length_le_bytes [simp, size_simps]: "length (le_bytes n w) = n"
  by (simp add: le_bytes_def)

lemma length_mem_store [simp, size_simps]:
  "length (mem_store H (w :: 'a::len word)) = LENGTH('a) div 8"
  by (simp add: mem_store_def split: endian.split)

lemma bit_le_word:
  "bit (le_word bs :: 'a::len word) i \<longleftrightarrow>
     i < LENGTH('a) \<and> i div 8 < length bs \<and> bit (bs ! (i div 8)) (i mod 8)"
proof (induction bs arbitrary: i)
  case Nil
  show ?case by simp
next
  case (Cons b bs)
  show ?case
  proof (cases "i < 8")
    case True
    then show ?thesis
      by (auto simp: bit_or_iff bit_push_bit_iff bit_ucast_iff)
  next
    case False
    then have "i div 8 = Suc ((i - 8) div 8)" and "i mod 8 = (i - 8) mod 8"
      by (simp_all add: le_div_geq le_mod_geq)
    moreover have "\<not> bit b i"
      using False bit_imp_le_length [of b i] by auto
    ultimately show ?thesis
      using False Cons.IH [of "i - 8"]
      by (auto simp: bit_or_iff bit_push_bit_iff bit_ucast_iff)
  qed
qed

lemma le_word_le_bytes:
  assumes "LENGTH('a) \<le> 8 * n"
  shows "le_word (le_bytes n w) = (w :: 'a::len word)"
proof (rule bit_word_eqI)
  fix i assume i: "i < LENGTH('a)"
  then have "i div 8 < n" using assms by auto
  then show "bit (le_word (le_bytes n w) :: 'a word) i = bit w i"
    using i by (simp add: bit_le_word le_bytes_def bit_ucast_iff bit_drop_bit_eq)
qed

lemma le_bytes_le_word:
  assumes "length bs = n" and "8 * n \<le> LENGTH('a::len)"
  shows "le_bytes n (le_word bs :: 'a word) = bs"
proof (rule nth_equalityI)
  show "length (le_bytes n (le_word bs :: 'a word)) = length bs" by (simp add: assms)
next
  fix j assume "j < length (le_bytes n (le_word bs :: 'a word))"
  then have j: "j < n" by simp
  show "le_bytes n (le_word bs :: 'a word) ! j = bs ! j"
  proof (rule bit_word_eqI)
    fix i assume "i < LENGTH(8)"
    then have i: "i < 8" by simp
    then have "(8 * j + i) div 8 = j" and "(8 * j + i) mod 8 = i" by simp_all
    moreover have "8 * j + i < LENGTH('a)" using i j assms(2) by linarith
    ultimately show "bit (le_bytes n (le_word bs :: 'a word) ! j) i = bit (bs ! j) i"
      using i j assms(1)
      by (simp add: le_bytes_def bit_ucast_iff bit_drop_bit_eq bit_le_word)
  qed
qed

lemma mem_load_store [simp]:
  assumes "LENGTH('a) mod 8 = 0"
  shows "mem_load H (mem_store H w) = (w :: 'a::len word)"
proof -
  have "le_word (le_bytes (LENGTH('a) div 8) w) = w"
    using assms by (intro le_word_le_bytes) auto
  then show ?thesis by (simp add: mem_load_def mem_store_def split: endian.split)
qed

lemma mem_store_load [simp]:
  assumes "length bs = LENGTH('a::len) div 8"
  shows "mem_store H (mem_load H bs :: 'a word) = bs"
proof -
  have "le_bytes (LENGTH('a) div 8) (le_word bs :: 'a word) = bs"
    using assms by (intro le_bytes_le_word) auto
  moreover have "le_bytes (LENGTH('a) div 8) (le_word (rev bs) :: 'a word) = rev bs"
    using assms by (intro le_bytes_le_word) auto
  ultimately show ?thesis by (simp add: mem_load_def mem_store_def split: endian.split)
qed

lemma mem_load_eq_iff:
  assumes "length bs = LENGTH('a::len) div 8" and "LENGTH('a) mod 8 = 0"
  shows "mem_load H bs = (w :: 'a word) \<longleftrightarrow> bs = mem_store H w"
proof
  assume "mem_load H bs = w"
  then show "bs = mem_store H w"
    using mem_store_load [OF assms(1), of H] by simp
next
  assume "bs = mem_store H w"
  then show "mem_load H bs = w" using assms(2) by simp
qed

lemma mem_store_inj:
  "LENGTH('a) mod 8 = 0 \<Longrightarrow> mem_store H v = mem_store H (w :: 'a::len word) \<longleftrightarrow> v = w"
  by (metis mem_load_store)

lemma unat_bound: "unat (w :: 'a::len word) < 2 ^ LENGTH('a)"
  by (rule unsigned_less)

lemma unat32_bound: "unat (w :: 32 word) < 2 ^ 32"
  using unat_bound [of w] by simp

lemma unat_of_nat32: "n < 2 ^ 32 \<Longrightarrow> unat (of_nat n :: 32 word) = n"
  by (simp add: unat_of_nat)

lemma nat_sint32: "0 \<le> sint w \<Longrightarrow> nat (sint w) = unat (w :: 32 word)"
proof -
  assume pos: "0 \<le> sint w"
  have "sint w = uint w - 2 ^ 32 * of_bool (bit (uint w) 31)"
    using uint_lt2p [of w] by (simp add: sint_uint signed_take_bit_eq_take_bit_minus take_bit_int_eq_self)
  moreover have "uint w < 2 ^ 32" using uint_lt2p [of w] by simp
  ultimately have "sint w = uint w" using pos by (auto split: if_splits)
  then show ?thesis by simp
qed

section \<open>Buffers\<close>

text \<open>
  \<open>peek buf off n\<close> is what \<open>memcpy(dst, buf + off, n)\<close> reads, \<open>poke buf off bs\<close> the
  buffer after \<open>memcpy(buf + off, bs, bs.size())\<close>. Both are in bounds when
  \<open>off + n \<le> length buf\<close>; the code's guards give that at every call.
\<close>

definition peek :: "bytes \<Rightarrow> nat \<Rightarrow> nat \<Rightarrow> bytes" where
  "peek buf off n = take n (drop off buf)"

definition poke :: "'a list \<Rightarrow> nat \<Rightarrow> 'a list \<Rightarrow> 'a list" where
  "poke buf off bs = take off buf @ bs @ drop (off + length bs) buf"

lemma length_peek [size_simps]: "off + n \<le> length buf \<Longrightarrow> length (peek buf off n) = n"
  by (simp add: peek_def)

lemma length_poke [size_simps]:
  "off + length bs \<le> length buf \<Longrightarrow> length (poke buf off bs) = length buf"
  by (simp add: poke_def)

lemma peek_skip [layout_simps]:
  "length a \<le> off \<Longrightarrow> peek (a @ b) off n = peek b (off - length a) n"
  by (simp add: peek_def)

lemma peek_here [layout_simps]: "length a = n \<Longrightarrow> peek (a @ b) 0 n = a"
  by (simp add: peek_def)

lemma peek_whole [layout_simps]: "length a = n \<Longrightarrow> peek a 0 n = a"
  by (simp add: peek_def)

lemma peek_append_left:
  "off + n \<le> length a \<Longrightarrow> peek (a @ b) off n = peek a off n"
  by (simp add: peek_def)

lemma peek_poke_same [layout_simps]:
  "off + length bs \<le> length buf \<Longrightarrow> n = length bs \<Longrightarrow> peek (poke buf off bs) off n = bs"
  by (simp add: peek_def poke_def)

lemma drop_peek: "drop off d = peek d off n @ drop (off + n) d"
  by (metis add.commute append_take_drop_id drop_drop peek_def)

lemma poke_replicate:
  "length done = off \<Longrightarrow>
   poke (done @ replicate k z) off bs = done @ bs @ replicate (k - length bs) z"
  by (simp add: poke_def)

section \<open>Exclusive or of byte strings\<close>

lemma xor_eq_0_iff: "a XOR b = 0 \<longleftrightarrow> a = (b :: 'a::len word)"
  by (metis xor.assoc xor.left_neutral xor.right_neutral xor_self_eq)

lemma xor_same_key: "(a XOR k) XOR (b XOR k) = a XOR (b :: 'a::len word)"
  by (rule bit_word_eqI) (auto simp: bit_xor_iff)

definition xor_bytes :: "bytes \<Rightarrow> bytes \<Rightarrow> bytes" where
  "xor_bytes a b = map2 (XOR) a b"

lemma length_xor_bytes [simp, size_simps]: "length (xor_bytes a b) = min (length a) (length b)"
  by (simp add: xor_bytes_def)

lemma xor_bytes_cancel: "length a \<le> length k \<Longrightarrow> xor_bytes (xor_bytes a k) k = a"
  by (induction a arbitrary: k) (auto simp: xor_bytes_def xor.assoc Suc_le_length_iff)

lemma xor_bytes_append:
  "length a = length k \<Longrightarrow> xor_bytes (a @ b) (k @ l) = xor_bytes a k @ xor_bytes b l"
  by (simp add: xor_bytes_def)

end
