(* ===== verification/Protocol_Codec.thy ===== *)
theory Protocol_Codec
  imports Prelude
begin

text \<open>
  The binary framing of \<open>libs/protocol\<close>: \<open>ProtocolCodec.h\<close> (payload types, errors, header)
  and \<open>ProtocolCodec.cpp\<close> (\<open>encode\<close>, \<open>decode\<close>). A packet is a 28-byte header in host byte
  order followed by the payload.
\<close>

section \<open>Data\<close>

definition MAGIC_HEADER :: "32 word" where "MAGIC_HEADER = 0x52415030"

definition PROTOCOL_VERSION :: "16 word" where "PROTOCOL_VERSION = 1"

definition HEADER_SIZE :: nat where "HEADER_SIZE = 4 + 2 + 2 + 8 + 8 + 4"

lemma HEADER_SIZE_eq [simp]: "HEADER_SIZE = 28"
  by (simp add: HEADER_SIZE_def)

text \<open>
  \<open>PayloadType\<close> has the fixed underlying type \<open>uint16_t\<close>, so a value of it may be any 16-bit
  number: \<open>UnlistedType w\<close> is a value with no enumerator.
\<close>

datatype PayloadType =
    Unspecified | HandshakeReq | HandshakeResp | FrameHeader | InputEvent | Heartbeat
  | ClipboardData | FileTransferRequest | FileTransferResponse | FileChunkPayload
  | FileTransferControl | DirectoryListRequest | DirectoryListResponse | AuthRequest
  | AuthResponse | SessionControl | AudioFrame | TerminalData
  | UnlistedType "16 word"

definition payload_type_enumerators :: "(16 word \<times> PayloadType) list" where
  "payload_type_enumerators =
     [(0, Unspecified), (1, HandshakeReq), (2, HandshakeResp), (3, FrameHeader),
      (4, InputEvent), (5, Heartbeat), (6, ClipboardData), (7, FileTransferRequest),
      (8, FileTransferResponse), (9, FileChunkPayload), (10, FileTransferControl),
      (11, DirectoryListRequest), (12, DirectoryListResponse), (13, AuthRequest),
      (14, AuthResponse), (15, SessionControl), (16, AudioFrame), (17, TerminalData)]"

fun payload_type_value :: "PayloadType \<Rightarrow> 16 word" where
  "payload_type_value Unspecified = 0"
| "payload_type_value HandshakeReq = 1"
| "payload_type_value HandshakeResp = 2"
| "payload_type_value FrameHeader = 3"
| "payload_type_value InputEvent = 4"
| "payload_type_value Heartbeat = 5"
| "payload_type_value ClipboardData = 6"
| "payload_type_value FileTransferRequest = 7"
| "payload_type_value FileTransferResponse = 8"
| "payload_type_value FileChunkPayload = 9"
| "payload_type_value FileTransferControl = 10"
| "payload_type_value DirectoryListRequest = 11"
| "payload_type_value DirectoryListResponse = 12"
| "payload_type_value AuthRequest = 13"
| "payload_type_value AuthResponse = 14"
| "payload_type_value SessionControl = 15"
| "payload_type_value AudioFrame = 16"
| "payload_type_value TerminalData = 17"
| "payload_type_value (UnlistedType w) = w"

definition payload_type_cast :: "16 word \<Rightarrow> PayloadType" where
  "payload_type_cast w =
     (case map_of payload_type_enumerators w of Some t \<Rightarrow> t | None \<Rightarrow> UnlistedType w)"

definition wf_payload_type :: "PayloadType \<Rightarrow> bool" where
  "wf_payload_type t \<longleftrightarrow> payload_type_cast (payload_type_value t) = t"

datatype ParseError =
    NoError | InvalidMagicHeader | UnsupportedVersion | IncompleteHeader | IncompletePayload
  | CorruptedPayload

record PacketHeader =
  magic :: "32 word"
  version :: "16 word"
  ptype :: PayloadType
  sequenceNumber :: "64 word"
  timestampMs :: "64 word"
  payloadSize :: "32 word"

record Packet =
  header :: PacketHeader
  payload :: bytes

type_synonym ParseResult = "ParseError + Packet"

section \<open>Operations\<close>

text \<open>
  \<open>encode\<close> fills a zeroed buffer of \<open>HEADER_SIZE + payloadSize\<close> bytes field by field.
  \<open>payloadSize\<close> is the payload's length cast to 32 bits, and the last copy moves that many
  bytes of the payload.
\<close>

definition encode ::
    "host \<Rightarrow> PayloadType \<Rightarrow> 64 word \<Rightarrow> 64 word \<Rightarrow> bytes \<Rightarrow> bytes" where
  "encode H type seqNo timestamp body =
     (let size32 = (of_nat (length body) :: 32 word);
          buffer = replicate (HEADER_SIZE + unat size32) 0;
          buffer = poke buffer 0 (mem_store H MAGIC_HEADER);
          buffer = poke buffer 4 (mem_store H PROTOCOL_VERSION);
          buffer = poke buffer 6 (mem_store H (payload_type_value type));
          buffer = poke buffer 8 (mem_store H seqNo);
          buffer = poke buffer 16 (mem_store H timestamp);
          buffer = poke buffer 24 (mem_store H size32)
      in if body \<noteq> [] then poke buffer 28 (take (unat size32) body) else buffer)"

definition decode :: "host \<Rightarrow> bytes \<Rightarrow> ParseResult" where
  "decode H data =
     (if length data < HEADER_SIZE then Inl IncompleteHeader
      else let m = mem_load H (peek data 0 4) in
      if m \<noteq> MAGIC_HEADER then Inl InvalidMagicHeader
      else let v = mem_load H (peek data 4 2) in
      if v \<noteq> PROTOCOL_VERSION then Inl UnsupportedVersion
      else
        let typeVal = mem_load H (peek data 6 2);
            seqNo = mem_load H (peek data 8 8);
            timestamp = mem_load H (peek data 16 8);
            size32 = (mem_load H (peek data 24 4) :: 32 word)
        in
        if length data < HEADER_SIZE + unat size32 then Inl IncompletePayload
        else Inr \<lparr>header = \<lparr>magic = m, version = v, ptype = payload_type_cast typeVal,
                            sequenceNumber = seqNo, timestampMs = timestamp,
                            payloadSize = size32\<rparr>,
                  payload = (if 0 < size32 then peek data 28 (unat size32) else [])\<rparr>)"

section \<open>Payload types\<close>

lemma payload_type_cast_value_listed:
  "(\<forall>w. t \<noteq> UnlistedType w) \<Longrightarrow> payload_type_cast (payload_type_value t) = t"
  by (cases t) (simp_all add: payload_type_cast_def payload_type_enumerators_def)

lemma payload_type_value_cast [simp]: "payload_type_value (payload_type_cast w) = w"
  by (simp add: payload_type_cast_def payload_type_enumerators_def)

lemma wf_payload_type_cast [simp]: "wf_payload_type (payload_type_cast w)"
  by (simp add: wf_payload_type_def)

lemma wf_payload_type_listed [simp]:
  "(\<forall>w. t \<noteq> UnlistedType w) \<Longrightarrow> wf_payload_type t"
  by (simp add: wf_payload_type_def payload_type_cast_value_listed)

section \<open>Layout\<close>

definition header_bytes ::
    "host \<Rightarrow> 16 word \<Rightarrow> 64 word \<Rightarrow> 64 word \<Rightarrow> 32 word \<Rightarrow> bytes" where
  "header_bytes H typeVal seqNo timestamp size32 =
     mem_store H MAGIC_HEADER @ mem_store H PROTOCOL_VERSION @ mem_store H typeVal @
     mem_store H seqNo @ mem_store H timestamp @ mem_store H size32"

lemma length_header_bytes [simp, size_simps]: "length (header_bytes H t s ts n) = 28"
  by (simp add: header_bytes_def)

lemma size32_le: "unat (of_nat n :: 32 word) \<le> n"
  by (simp add: unat_of_nat)

lemma encode_layout:
  "encode H t s ts body =
     header_bytes H (payload_type_value t) s ts (of_nat (length body)) @
     take (unat (of_nat (length body) :: 32 word)) body"
  by (simp add: encode_def header_bytes_def poke_def Let_def size32_le)

lemma size32_exact:
  "length body < 2 ^ 32 \<Longrightarrow> unat (of_nat (length body) :: 32 word) = length body"
  by (simp add: unat_of_nat)

lemma encode_layout_exact:
  "length body < 2 ^ 32 \<Longrightarrow>
   encode H t s ts body =
     header_bytes H (payload_type_value t) s ts (of_nat (length body)) @ body"
  by (simp add: encode_layout size32_exact)

lemma length_encode:
  "length body < 2 ^ 32 \<Longrightarrow> length (encode H t s ts body) = HEADER_SIZE + length body"
  by (simp add: encode_layout_exact)

lemma header_bytes_peeks:
  "peek (header_bytes H t s ts n @ rest) 0 4 = mem_store H MAGIC_HEADER"
  "peek (header_bytes H t s ts n @ rest) 4 2 = mem_store H PROTOCOL_VERSION"
  "peek (header_bytes H t s ts n @ rest) 6 2 = mem_store H t"
  "peek (header_bytes H t s ts n @ rest) 8 8 = mem_store H s"
  "peek (header_bytes H t s ts n @ rest) 16 8 = mem_store H ts"
  "peek (header_bytes H t s ts n @ rest) 24 4 = mem_store H n"
  "peek (header_bytes H t s ts n @ rest) 28 k = take k rest"
  by (simp_all add: header_bytes_def peek_def)

text \<open>What \<open>decode\<close> does behind a well-formed header.\<close>

definition packet_of :: "16 word \<Rightarrow> 64 word \<Rightarrow> 64 word \<Rightarrow> 32 word \<Rightarrow> bytes \<Rightarrow> Packet" where
  "packet_of typeVal s ts n rest =
     \<lparr>header = \<lparr>magic = MAGIC_HEADER, version = PROTOCOL_VERSION,
               ptype = payload_type_cast typeVal, sequenceNumber = s, timestampMs = ts,
               payloadSize = n\<rparr>,
      payload = take (unat n) rest\<rparr>"

lemma decode_header_bytes:
  "decode H (header_bytes H t s ts n @ rest) =
     (if length rest < unat n then Inl IncompletePayload else Inr (packet_of t s ts n rest))"
proof -
  have "unat n = 0" if "\<not> 0 < n" using that by (simp add: word_gt_0)
  then show ?thesis
    by (auto simp add: decode_def header_bytes_peeks packet_of_def Let_def)
qed

lemma header_bytes_split:
  assumes "28 \<le> length d" and "mem_load H (peek d 0 4) = MAGIC_HEADER"
    and "mem_load H (peek d 4 2) = PROTOCOL_VERSION"
  shows "d = header_bytes H (mem_load H (peek d 6 2)) (mem_load H (peek d 8 8))
               (mem_load H (peek d 16 8)) (mem_load H (peek d 24 4)) @ drop 28 d"
proof -
  have len: "length (peek d 0 4) = 4" "length (peek d 4 2) = 2" "length (peek d 6 2) = 2"
    "length (peek d 8 8) = 8" "length (peek d 16 8) = 8" "length (peek d 24 4) = 4"
    using assms(1) by (simp_all add: length_peek)
  have "d = peek d 0 4 @ peek d 4 2 @ peek d 6 2 @ peek d 8 8 @ peek d 16 8 @ peek d 24 4 @ drop 28 d"
    using drop_peek [of 0 d 4] drop_peek [of 4 d 2] drop_peek [of 6 d 2] drop_peek [of 8 d 8]
      drop_peek [of 16 d 8] drop_peek [of 24 d 4] by simp
  moreover have "mem_store H MAGIC_HEADER = peek d 0 4"
    using len(1) by (simp flip: assms(2))
  moreover have "mem_store H PROTOCOL_VERSION = peek d 4 2"
    using len(2) by (simp flip: assms(3))
  ultimately show ?thesis
    using len by (simp add: header_bytes_def)
qed

lemma decode_cases:
  obtains (short) "length d < 28" "decode H d = Inl IncompleteHeader"
  | (bad_magic) "28 \<le> length d" "mem_load H (peek d 0 4) \<noteq> MAGIC_HEADER"
      "decode H d = Inl InvalidMagicHeader"
  | (bad_version) "28 \<le> length d" "mem_load H (peek d 0 4) = MAGIC_HEADER"
      "mem_load H (peek d 4 2) \<noteq> PROTOCOL_VERSION" "decode H d = Inl UnsupportedVersion"
  | (well_formed) t s ts n where "d = header_bytes H t s ts n @ drop 28 d"
proof -
  consider "length d < 28" | "28 \<le> length d" by linarith
  then show ?thesis
  proof cases
    case 1
    then show ?thesis using short by (simp add: decode_def)
  next
    case 2
    then show ?thesis
      using bad_magic bad_version well_formed header_bytes_split [OF 2]
      by (simp add: decode_def Let_def) metis
  qed
qed

section \<open>Laws of the codec\<close>

lemma decode_of_encode:
  assumes "wf_payload_type t" and "length body < 2 ^ 32"
  shows "decode H (encode H t s ts body @ rest) =
    Inr \<lparr>header = \<lparr>magic = MAGIC_HEADER, version = PROTOCOL_VERSION, ptype = t,
                   sequenceNumber = s, timestampMs = ts, payloadSize = of_nat (length body)\<rparr>,
         payload = body\<rparr>"
  using assms
  by (simp add: encode_layout_exact decode_header_bytes size32_exact packet_of_def
      wf_payload_type_def)

lemma decode_Inr_iff:
  "decode H d = Inr p \<longleftrightarrow>
     (\<exists>t s ts n rest. d = header_bytes H t s ts n @ rest \<and> unat n \<le> length rest \<and>
        p = packet_of t s ts n rest)"
proof (cases d rule: decode_cases [where H = H])
  case (well_formed t s ts n)
  then show ?thesis
    by (metis decode_header_bytes Inl_Inr_False linorder_not_less sum.inject(2))
qed (auto simp: decode_header_bytes not_less)

lemma decode_append:
  "decode H d = Inr p \<Longrightarrow> decode H (d @ e) = Inr p"
  by (auto simp: decode_Inr_iff packet_of_def)

definition packet_span :: "Packet \<Rightarrow> nat" where
  "packet_span p = HEADER_SIZE + unat (payloadSize (header p))"

lemma packet_span_ge: "28 \<le> packet_span p"
  by (simp add: packet_span_def)

lemma packet_span_le: "decode H d = Inr p \<Longrightarrow> packet_span p \<le> length d"
  by (auto simp: decode_Inr_iff packet_of_def packet_span_def)

lemma decode_reencode:
  assumes "decode H d = Inr p"
  shows "d = encode H (ptype (header p)) (sequenceNumber (header p)) (timestampMs (header p))
               (payload p) @ drop (packet_span p) d"
    and "length (payload p) = unat (payloadSize (header p))"
proof -
  obtain t s ts n rest where d: "d = header_bytes H t s ts n @ rest"
    and n: "unat n \<le> length rest" and p: "p = packet_of t s ts n rest"
    using assms by (auto simp: decode_Inr_iff)
  have "length (take (unat n) rest) < 2 ^ 32"
    using unat32_bound [of n] by simp
  moreover have "of_nat (min (length rest) (unat n)) = n"
    using n by (simp add: min_def)
  ultimately show "d = encode H (ptype (header p)) (sequenceNumber (header p))
      (timestampMs (header p)) (payload p) @ drop (packet_span p) d"
    by (simp add: d p packet_of_def packet_span_def encode_layout_exact)
  show "length (payload p) = unat (payloadSize (header p))"
    using n by (simp add: p packet_of_def)
qed

definition is_incomplete :: "ParseError \<Rightarrow> bool" where
  "is_incomplete err \<longleftrightarrow> err = IncompleteHeader \<or> err = IncompletePayload"

lemma decode_resync_append:
  "decode H d = Inl err \<Longrightarrow> \<not> is_incomplete err \<Longrightarrow> decode H (d @ e) = Inl err"
proof (cases d rule: decode_cases [where H = H])
  case (well_formed t s ts n)
  assume "decode H d = Inl err" "\<not> is_incomplete err"
  then show ?thesis
    by (subst (asm) well_formed) (auto simp: decode_header_bytes is_incomplete_def split: if_splits)
qed (auto simp: is_incomplete_def decode_def Let_def peek_append_left)

lemma decode_prefix:
  assumes "length body < 2 ^ 32" and "k < length (encode H t s ts body)"
  shows "decode H (take k (encode H t s ts body)) =
         Inl (if k < 28 then IncompleteHeader else IncompletePayload)"
proof (cases "k < 28")
  case True
  then have "length (take k (encode H t s ts body)) < HEADER_SIZE" by simp
  then show ?thesis using True by (simp only: decode_def if_True)
next
  case False
  then have "take k (encode H t s ts body) =
      header_bytes H (payload_type_value t) s ts (of_nat (length body)) @ take (k - 28) body"
    by (simp add: encode_layout_exact [OF assms(1)])
  moreover have "k - 28 < length body" using False assms by (simp add: length_encode)
  ultimately show ?thesis
    using False by (simp add: decode_header_bytes size32_exact [OF assms(1)])
qed

section \<open>Properties\<close>

text \<open>C5: every packet that \<open>encode\<close> writes is read back by \<open>decode\<close> with the same type,
  sequence number, timestamp and payload, whatever bytes follow it, on either byte order; the
  payload must be shorter than 4 GiB, since its length travels in 32 bits.\<close>

theorem decode_encode:
  assumes "wf_payload_type t" and "length body < 2 ^ 32"
  shows "decode H (encode H t s ts body @ rest) =
    Inr \<lparr>header = \<lparr>magic = MAGIC_HEADER, version = PROTOCOL_VERSION, ptype = t,
                   sequenceNumber = s, timestampMs = ts, payloadSize = of_nat (length body)\<rparr>,
         payload = body\<rparr>"
  using assms by (rule decode_of_encode)

theorem decode_encode_witness:
  "decode x86_64 (encode x86_64 InputEvent 1001 1723890000000 [1, 2, 3, 4] @ [9]) =
    Inr \<lparr>header = \<lparr>magic = MAGIC_HEADER, version = PROTOCOL_VERSION, ptype = InputEvent,
                   sequenceNumber = 1001, timestampMs = 1723890000000, payloadSize = 4\<rparr>,
         payload = [1, 2, 3, 4]\<rparr>"
  using decode_encode [of InputEvent "[1, 2, 3, 4]" x86_64 1001 1723890000000 "[9]"] by simp

text \<open>C6: \<open>decode\<close> accepts nothing but encodings: an accepted buffer starts with the encoding of
  the packet returned, whose payload has the length the header announces; what follows is left
  untouched.\<close>

theorem decode_sound:
  assumes "decode H d = Inr p"
  shows "d = encode H (ptype (header p)) (sequenceNumber (header p)) (timestampMs (header p))
               (payload p) @ drop (packet_span p) d \<and>
         length (payload p) = unat (payloadSize (header p)) \<and> packet_span p \<le> length d"
  using decode_reencode [OF assms] packet_span_le [OF assms] by blast

theorem decode_sound_witness:
  "let d = encode x86_64 Heartbeat 7 0 [5, 6] @ [1]; p = projr (decode x86_64 d)
   in d = encode x86_64 (ptype (header p)) (sequenceNumber (header p)) (timestampMs (header p))
            (payload p) @ drop (packet_span p) d"
proof -
  have "decode x86_64 (encode x86_64 Heartbeat 7 0 [5, 6] @ [1]) =
        Inr (projr (decode x86_64 (encode x86_64 Heartbeat 7 0 [5, 6] @ [1])))"
    by (simp add: decode_of_encode)
  from decode_sound [OF this] show ?thesis by (simp only: Let_def)
qed

text \<open>C26: each outcome of \<open>decode\<close>, on every input: a short buffer, a foreign magic number, an
  unknown version and a missing payload are reported in this order and exactly then;
  \<open>CorruptedPayload\<close> and the no-error value are never returned.\<close>

theorem decode_outcomes:
  "(decode H d = Inl IncompleteHeader \<longleftrightarrow> length d < HEADER_SIZE) \<and>
   (decode H d = Inl InvalidMagicHeader \<longleftrightarrow>
      HEADER_SIZE \<le> length d \<and> take 4 d \<noteq> mem_store H MAGIC_HEADER) \<and>
   (decode H d = Inl UnsupportedVersion \<longleftrightarrow>
      HEADER_SIZE \<le> length d \<and> take 4 d = mem_store H MAGIC_HEADER \<and>
      take 2 (drop 4 d) \<noteq> mem_store H PROTOCOL_VERSION) \<and>
   (decode H d = Inl IncompletePayload \<longleftrightarrow>
      HEADER_SIZE \<le> length d \<and> take 4 d = mem_store H MAGIC_HEADER \<and>
      take 2 (drop 4 d) = mem_store H PROTOCOL_VERSION \<and>
      length d < HEADER_SIZE + unat (mem_load H (take 4 (drop 24 d)) :: 32 word)) \<and>
   decode H d \<noteq> Inl CorruptedPayload \<and> decode H d \<noteq> Inl NoError"
proof (cases "28 \<le> length d")
  case True
  have "mem_load H (take 4 d) = MAGIC_HEADER \<longleftrightarrow> take 4 d = mem_store H MAGIC_HEADER"
    using True by (simp add: mem_load_eq_iff)
  moreover have "mem_load H (take 2 (drop 4 d)) = PROTOCOL_VERSION \<longleftrightarrow>
      take 2 (drop 4 d) = mem_store H PROTOCOL_VERSION"
    using True by (simp add: mem_load_eq_iff)
  ultimately show ?thesis
    using True by (simp add: decode_def peek_def Let_def)
next
  case False
  then show ?thesis by (simp add: decode_def)
qed

end
