(* ===== verification/Packet_Stream.thy ===== *)
theory Packet_Stream
  imports Protocol_Codec
begin

text \<open>
  Cutting a byte stream into packets. TCP delivers the stream in arbitrary pieces; both ends call
  \<open>ProtocolCodec::decode\<close> in a loop over what they have. The interface \<open>framed_codec\<close> states
  what such a loop relies on (answers do not change when more bytes arrive, an accepted packet
  lies inside the buffer), \<open>scan\<close> is the reference loop (deliver, or wait, or drop a byte and
  look again), and its lemmas show that the result does not depend on how the stream was cut.
  The loops of the agent and of the client are modelled with their state in their own theories
  and related to \<open>scan\<close> there.
\<close>

section \<open>The reference loop\<close>

definition deliver :: "'p list \<Rightarrow> 'p list \<times> bytes \<Rightarrow> 'p list \<times> bytes" where
  "deliver ps x = (ps @ fst x, snd x)"

lemma deliver_Nil [simp]: "deliver [] x = x"
  by (simp add: deliver_def)

lemma deliver_deliver [simp]: "deliver ps (deliver qs x) = deliver (ps @ qs) x"
  by (simp add: deliver_def)

lemma fst_snd_deliver [simp]: "fst (deliver ps x) = ps @ fst x" "snd (deliver ps x) = snd x"
  by (simp_all add: deliver_def)

function scan ::
    "(bytes \<Rightarrow> 'e + 'p) \<Rightarrow> ('e \<Rightarrow> bool) \<Rightarrow> ('p \<Rightarrow> nat) \<Rightarrow> nat \<Rightarrow> bytes \<Rightarrow> 'p list \<times> bytes" where
  "scan dec waits span hdr d =
     (if d = [] \<or> length d < hdr then ([], d)
      else case dec d of
             Inl err \<Rightarrow> if waits err then ([], d) else scan dec waits span hdr (tl d)
           | Inr p \<Rightarrow> deliver [p] (scan dec waits span hdr (drop (max 1 (span p)) d)))"
  by pat_completeness auto
termination
  by (relation "measure (\<lambda>(dec, waits, span, hdr, d). length d)") auto

declare scan.simps [simp del]

locale framed_codec =
  fixes dec :: "bytes \<Rightarrow> 'e + 'p"
    and waits :: "'e \<Rightarrow> bool"
    and span :: "'p \<Rightarrow> nat"
    and hdr :: nat
  assumes hdr_pos: "0 < hdr"
    and span_hdr: "dec d = Inr p \<Longrightarrow> hdr \<le> span p"
    and span_fits: "dec d = Inr p \<Longrightarrow> span p \<le> length d"
    and dec_more: "dec d = Inr p \<Longrightarrow> dec (d @ e) = Inr p"
    and dec_bad_more: "dec d = Inl err \<Longrightarrow> \<not> waits err \<Longrightarrow> dec (d @ e) = Inl err"
begin

lemma scan_short: "length d < hdr \<Longrightarrow> scan dec waits span hdr d = ([], d)"
  by (subst scan.simps) simp

lemma scan_wait:
  "dec d = Inl err \<Longrightarrow> waits err \<Longrightarrow> scan dec waits span hdr d = ([], d)"
  by (subst scan.simps) simp

lemma scan_skip:
  assumes "hdr \<le> length d" and "dec d = Inl err" and "\<not> waits err"
  shows "scan dec waits span hdr d = scan dec waits span hdr (tl d)"
proof -
  have "d \<noteq> []" using assms(1) hdr_pos by auto
  then show ?thesis using assms by (subst scan.simps) simp
qed

lemma scan_packet:
  assumes "dec d = Inr p"
  shows "scan dec waits span hdr d = deliver [p] (scan dec waits span hdr (drop (span p) d))"
proof -
  have "max 1 (span p) = span p" and "hdr \<le> length d" and "d \<noteq> []"
    using span_hdr [OF assms] span_fits [OF assms] hdr_pos by auto
  then show ?thesis using assms by (subst scan.simps) simp
qed

lemma scan_cases:
  obtains (short) "length d < hdr"
  | (wait) err where "hdr \<le> length d" "dec d = Inl err" "waits err"
  | (skip) err where "hdr \<le> length d" "dec d = Inl err" "\<not> waits err" "d \<noteq> []"
  | (packet) p where "dec d = Inr p" "0 < span p" "span p \<le> length d" "d \<noteq> []"
proof (cases "length d < hdr")
  case True
  then show ?thesis by (rule short)
next
  case False
  then have ne: "d \<noteq> []" using hdr_pos by auto
  show ?thesis
  proof (cases "dec d")
    case (Inl err)
    then show ?thesis using wait skip False ne by (metis not_less)
  next
    case (Inr p)
    then show ?thesis using packet ne span_fits span_hdr hdr_pos by (metis order_less_le_trans)
  qed
qed

lemma scan_append:
  "scan dec waits span hdr (a @ b) =
     deliver (fst (scan dec waits span hdr a))
       (scan dec waits span hdr (snd (scan dec waits span hdr a) @ b))"
proof (induction "length a" arbitrary: a rule: less_induct)
  case less
  show ?case
  proof (cases a rule: scan_cases)
    case short
    then show ?thesis by (simp add: scan_short [of a])
  next
    case (wait err)
    then show ?thesis by (simp add: scan_wait [of a])
  next
    case (skip err)
    then have "tl (a @ b) = tl a @ b" by simp
    moreover have "dec (a @ b) = Inl err" using skip by (simp add: dec_bad_more)
    ultimately show ?thesis
      using skip less [of "tl a"] by (simp add: scan_skip [of a] scan_skip [of "a @ b"])
  next
    case (packet p)
    then have "dec (a @ b) = Inr p" by (simp add: dec_more)
    then show ?thesis
      using packet less [of "drop (span p) a"]
      by (simp add: scan_packet [of a] scan_packet [of "a @ b"])
  qed
qed

lemma scan_stuck: "scan dec waits span hdr (snd (scan dec waits span hdr a)) = ([], snd (scan dec waits span hdr a))"
proof (induction "length a" arbitrary: a rule: less_induct)
  case less
  show ?case
  proof (cases a rule: scan_cases)
    case (skip err)
    then show ?thesis using less [of "tl a"] by (simp add: scan_skip [of a])
  next
    case (packet p)
    then show ?thesis using less [of "drop (span p) a"] by (simp add: scan_packet [of a])
  qed (simp_all add: scan_short scan_wait)
qed

lemma scan_rest_le: "length (snd (scan dec waits span hdr a)) \<le> length a"
proof (induction "length a" arbitrary: a rule: less_induct)
  case less
  show ?case
  proof (cases a rule: scan_cases)
    case (skip err)
    then show ?thesis using less [of "tl a"] by (simp add: scan_skip [of a])
  next
    case (packet p)
    then show ?thesis using less [of "drop (span p) a"] by (simp add: scan_packet [of a])
  qed (simp_all add: scan_short scan_wait)
qed

text \<open>Feeding the stream piece by piece, the remainder kept between calls.\<close>

lemma scan_pieces:
  "foldl (\<lambda>x c. deliver (fst x) (scan dec waits span hdr (snd x @ c))) ([], []) cs =
   scan dec waits span hdr (concat cs)"
proof (induction cs rule: rev_induct)
  case Nil
  then show ?case using hdr_pos by (simp add: scan_short)
next
  case (snoc c cs)
  then show ?case by (simp add: scan_append [of "concat cs"])
qed

lemma scan_stream:
  assumes "\<And>p rest. p \<in> set ps \<Longrightarrow> dec (enc p @ rest) = Inr p"
    and "\<And>p. p \<in> set ps \<Longrightarrow> span p = length (enc p)"
  shows "scan dec waits span hdr (concat (map enc ps)) = (ps, [])"
  using assms
proof (induction ps)
  case Nil
  then show ?case using hdr_pos by (simp add: scan_short)
next
  case (Cons p ps)
  then have "dec (enc p @ concat (map enc ps)) = Inr p" and "span p = length (enc p)" by auto
  then show ?case using Cons by (simp add: scan_packet deliver_def)
qed

end

section \<open>The codec provides the interface\<close>

interpretation rap: framed_codec "decode H" is_incomplete packet_span HEADER_SIZE for H
  by unfold_locales
     (simp_all add: packet_span_ge packet_span_le decode_append decode_resync_append)

abbreviation rap_scan :: "host \<Rightarrow> bytes \<Rightarrow> Packet list \<times> bytes" where
  "rap_scan H \<equiv> scan (decode H) is_incomplete packet_span HEADER_SIZE"

section \<open>How far the code advances\<close>

text \<open>
  Both loops compute \<open>size_t totalPacketSize = 28 + packet.header.payloadSize\<close>: the sum of an
  \<open>int\<close> and a \<open>uint32_t\<close> is computed in 32 bits, and only then widened.
\<close>

definition totalPacketSize :: "Packet \<Rightarrow> nat" where
  "totalPacketSize p = unat (28 + payloadSize (header p))"

lemma totalPacketSize_eq:
  "totalPacketSize p =
     (if unat (payloadSize (header p)) < 2 ^ 32 - 28 then packet_span p
      else unat (payloadSize (header p)) - (2 ^ 32 - 28))"
  using unat32_bound [of "payloadSize (header p)"]
  by (auto simp: totalPacketSize_def packet_span_def unat_word_ariths mod_if)

lemma totalPacketSize_fits:
  "decode H d = Inr p \<Longrightarrow> length d < 2 ^ 32 \<Longrightarrow> totalPacketSize p = packet_span p"
  using packet_span_le [of H d p] by (auto simp: totalPacketSize_eq packet_span_def)

end
