(* ===== verification/Chacha.thy ===== *)
theory Chacha
  imports Prelude
begin

text \<open>
  The stream cipher of \<open>libs/security/src/CryptoEngine.cpp\<close>: \<open>quarterRound\<close>,
  \<open>chacha20Block\<close> and \<open>chacha20Xor\<close>. The state is an array of sixteen 32-bit words; the cipher
  works on the caller's buffer in place. Shown here: the permutation is invertible, the in-place
  loop computes the exclusive or with a key stream (the reference definition), and applying the
  cipher twice restores the data.
\<close>

section \<open>Operations\<close>

definition rotl32 :: "nat \<Rightarrow> 32 word \<Rightarrow> 32 word" where
  "rotl32 n x = push_bit n x OR drop_bit (32 - n) x"

definition quarterRound ::
    "32 word \<Rightarrow> 32 word \<Rightarrow> 32 word \<Rightarrow> 32 word \<Rightarrow> 32 word \<times> 32 word \<times> 32 word \<times> 32 word" where
  "quarterRound a b c d =
     (let a = a + b; d = d XOR a; d = rotl32 16 d;
          c = c + d; b = b XOR c; b = rotl32 12 b;
          a = a + b; d = d XOR a; d = rotl32 8 d;
          c = c + d; b = b XOR c; b = rotl32 7 b
      in (a, b, c, d))"

definition quarterRound_at ::
    "nat \<Rightarrow> nat \<Rightarrow> nat \<Rightarrow> nat \<Rightarrow> 32 word list \<Rightarrow> 32 word list" where
  "quarterRound_at i j k l out =
     (case quarterRound (out ! i) (out ! j) (out ! k) (out ! l) of
        (a, b, c, d) \<Rightarrow> out[i := a, j := b, k := c, l := d])"

definition double_round :: "32 word list \<Rightarrow> 32 word list" where
  "double_round out =
     (let out = quarterRound_at 0 4 8 12 out;
          out = quarterRound_at 1 5 9 13 out;
          out = quarterRound_at 2 6 10 14 out;
          out = quarterRound_at 3 7 11 15 out;
          out = quarterRound_at 0 5 10 15 out;
          out = quarterRound_at 1 6 11 12 out;
          out = quarterRound_at 2 7 8 13 out
      in quarterRound_at 3 4 9 14 out)"

definition chacha_constants :: "32 word list" where
  "chacha_constants = [0x61707865, 0x33303232, 0x7962326d, 0x6b206574]"

definition chacha20Block :: "32 word list \<Rightarrow> 32 word \<Rightarrow> 32 word list \<Rightarrow> 32 word list" where
  "chacha20Block key counter nonce =
     (let state = chacha_constants @ key @ [counter] @ nonce;
          out = (double_round ^^ 10) state
      in map2 (+) out state)"

text \<open>The words of the key and of the nonce are read through \<open>reinterpret_cast\<close>.\<close>

definition load_words :: "host \<Rightarrow> nat \<Rightarrow> bytes \<Rightarrow> 32 word list" where
  "load_words H n bs = map (\<lambda>i. mem_load H (peek bs (4 * i) 4)) [0..<n]"

definition block_bytes :: "host \<Rightarrow> 32 word list \<Rightarrow> bytes" where
  "block_bytes H block = concat (map (mem_store H) block)"

definition xor_range :: "bytes \<Rightarrow> nat \<Rightarrow> bytes \<Rightarrow> nat \<Rightarrow> bytes" where
  "xor_range data offset blk n =
     fold (\<lambda>i d. d[offset + i := d ! (offset + i) XOR blk ! i]) [0..<n] data"

lemma length_xor_range [simp, size_simps]: "length (xor_range data offset blk n) = length data"
  by (induction n) (simp_all add: xor_range_def)

function chacha20Xor_loop ::
    "host \<Rightarrow> 32 word list \<Rightarrow> 32 word list \<Rightarrow> bytes \<Rightarrow> nat \<Rightarrow> 32 word \<Rightarrow> bytes" where
  "chacha20Xor_loop H key32 nonce32 data offset counter =
     (if offset < length data
      then let blk = block_bytes H (chacha20Block key32 counter nonce32);
               bytesToXor = min (length data - offset) 64
           in chacha20Xor_loop H key32 nonce32 (xor_range data offset blk bytesToXor)
                (offset + bytesToXor) (counter + 1)
      else data)"
  by pat_completeness auto

termination
  by (relation "measure (\<lambda>(H, key32, nonce32, data, offset, counter). length data - offset)")
     (auto simp: Let_def)

declare chacha20Xor_loop.simps [simp del]

definition chacha20Xor :: "host \<Rightarrow> bytes \<Rightarrow> bytes \<Rightarrow> bytes \<Rightarrow> 32 word \<Rightarrow> bytes" where
  "chacha20Xor H data key nonce counter =
     chacha20Xor_loop H (load_words H 8 key) (load_words H 3 nonce) data 0 counter"

section \<open>The quarter round is invertible\<close>

lemma rotl32_inj: "n \<le> 32 \<Longrightarrow> rotl32 n x = rotl32 n y \<longleftrightarrow> x = y"
proof
  assume n: "n \<le> 32" and eq: "rotl32 n x = rotl32 n y"
  have rot: "bit z i \<longleftrightarrow> bit (rotl32 n z) (if i + n < 32 then i + n else i + n - 32)"
    if "i < 32" for z :: "32 word" and i
    using that n
    by (auto simp: rotl32_def bit_or_iff bit_push_bit_iff bit_drop_bit_eq
        dest: bit_imp_le_length)
  show "x = y"
    by (rule bit_word_eqI) (use rot eq in auto)
qed simp

lemma xor_right_inj: "a XOR c = b XOR c \<longleftrightarrow> a = (b :: 'a::len word)"
  by (metis xor.assoc xor.right_neutral xor_self_eq)

lemma quarterRound_inj:
  "quarterRound a b c d = quarterRound a' b' c' d' \<longleftrightarrow> a = a' \<and> b = b' \<and> c = c' \<and> d = d'"
proof
  assume "quarterRound a b c d = quarterRound a' b' c' d'"
  then show "a = a' \<and> b = b' \<and> c = c' \<and> d = d'"
    by (auto simp: quarterRound_def Let_def rotl32_inj xor_right_inj)
qed simp

lemma quarterRound_at_simps:
  assumes "quarterRound (xs ! i) (xs ! j) (xs ! k) (xs ! l) = (a, b, c, d)"
    and "distinct [i, j, k, l]" and "i < length xs" "j < length xs" "k < length xs" "l < length xs"
  shows "quarterRound_at i j k l xs ! m =
    (if m = i then a else if m = j then b else if m = k then c else if m = l then d else xs ! m)"
  using assms by (auto simp: quarterRound_at_def nth_list_update)

lemma length_quarterRound_at [simp, size_simps]:
  "length (quarterRound_at i j k l xs) = length xs"
  by (simp add: quarterRound_at_def split: prod.split)

lemma length_double_round [simp, size_simps]: "length (double_round xs) = length xs"
  by (simp add: double_round_def Let_def)

lemma length_double_rounds [simp, size_simps]: "length ((double_round ^^ n) xs) = length xs"
  by (induction n) simp_all

lemma quarterRound_at_inj:
  assumes len: "length ys = length xs" and ix: "distinct [i, j, k, l]"
    "i < length xs" "j < length xs" "k < length xs" "l < length xs"
    and eq: "quarterRound_at i j k l xs = quarterRound_at i j k l ys"
  shows "xs = ys"
proof -
  obtain a b c d where x: "quarterRound (xs ! i) (xs ! j) (xs ! k) (xs ! l) = (a, b, c, d)"
    by (metis prod_cases4)
  obtain a' b' c' d' where y: "quarterRound (ys ! i) (ys ! j) (ys ! k) (ys ! l) = (a', b', c', d')"
    by (metis prod_cases4)
  have nth: "(if m = i then a else if m = j then b else if m = k then c else if m = l then d else xs ! m) =
      (if m = i then a' else if m = j then b' else if m = k then c' else if m = l then d' else ys ! m)" for m
    using arg_cong [OF eq, of "\<lambda>z. z ! m"] quarterRound_at_simps [OF x ix]
      quarterRound_at_simps [OF y] ix len by simp
  have "a = a'" "b = b'" "c = c'" "d = d'"
    using nth [of i] nth [of j] nth [of k] nth [of l] ix by (simp_all split: if_splits)
  then have "quarterRound (xs ! i) (xs ! j) (xs ! k) (xs ! l) =
      quarterRound (ys ! i) (ys ! j) (ys ! k) (ys ! l)" using x y by simp
  then have at: "xs ! i = ys ! i" "xs ! j = ys ! j" "xs ! k = ys ! k" "xs ! l = ys ! l"
    by (simp_all add: quarterRound_inj)
  show "xs = ys"
  proof (rule nth_equalityI)
    fix m assume "m < length xs"
    show "xs ! m = ys ! m" using nth [of m] at by (auto split: if_splits)
  qed (simp add: len)
qed

lemma double_round_inj:
  assumes "length xs = 16" and "length ys = 16" and "double_round xs = double_round ys"
  shows "xs = ys"
proof -
  have step: "quarterRound_at i j k l u = quarterRound_at i j k l v \<longleftrightarrow> u = v"
    if "length u = 16" "length v = 16" "distinct [i, j, k, l]" "i < 16" "j < 16" "k < 16" "l < 16"
    for i j k l u v
    using that by (metis quarterRound_at_inj)
  show ?thesis
    using assms(3) by (simp add: double_round_def Let_def step assms(1,2))
qed

lemma double_rounds_inj:
  assumes "length xs = 16" and "length ys = 16"
  shows "(double_round ^^ n) xs = (double_round ^^ n) ys \<longleftrightarrow> xs = ys"
  using assms by (induction n) (auto dest: double_round_inj [rotated 2])

section \<open>The loop\<close>

lemma xor_range_nth:
  assumes "offset + n \<le> length data" and "n \<le> length blk" and "i < length data"
  shows "xor_range data offset blk n ! i =
    (if offset \<le> i \<and> i < offset + n then data ! i XOR blk ! (i - offset) else data ! i)"
  using assms
proof (induction n)
  case 0
  then show ?case by (auto simp: xor_range_def)
next
  case (Suc n)
  have "xor_range data offset blk (Suc n) =
      (xor_range data offset blk n)[offset + n := xor_range data offset blk n ! (offset + n) XOR blk ! n]"
    by (simp add: xor_range_def)
  then show ?case using Suc by (auto simp: nth_list_update)
qed

lemma length_chacha20Xor_loop [simp, size_simps]:
  "length (chacha20Xor_loop H key32 nonce32 data offset counter) = length data"
  by (induction H key32 nonce32 data offset counter rule: chacha20Xor_loop.induct)
     (subst chacha20Xor_loop.simps, simp add: Let_def)

lemma length_chacha20Xor [simp, size_simps]: "length (chacha20Xor H data key nonce c) = length data"
  by (simp add: chacha20Xor_def)

lemma length_load_words [simp, size_simps]: "length (load_words H n bs) = n"
  by (simp add: load_words_def)

lemma length_chacha20Block [size_simps]:
  "length key = 8 \<Longrightarrow> length nonce = 3 \<Longrightarrow> length (chacha20Block key counter nonce) = 16"
  by (simp add: chacha20Block_def chacha_constants_def Let_def)

lemma length_block_bytes [size_simps]: "length (block_bytes H ws) = 4 * length ws"
  by (induction ws) (simp_all add: block_bytes_def)

definition keystream_block :: "host \<Rightarrow> 32 word list \<Rightarrow> 32 word list \<Rightarrow> 32 word \<Rightarrow> nat \<Rightarrow> bytes" where
  "keystream_block H key32 nonce32 counter b =
     block_bytes H (chacha20Block key32 (counter + of_nat b) nonce32)"

lemma chacha20Xor_loop_nth:
  assumes "length key32 = 8" and "length nonce32 = 3" and "i < length data"
  shows "chacha20Xor_loop H key32 nonce32 data offset counter ! i =
    (if i < offset then data ! i
     else data ! i XOR keystream_block H key32 nonce32 counter ((i - offset) div 64) ! ((i - offset) mod 64))"
  using assms
proof (induction H key32 nonce32 data offset counter rule: chacha20Xor_loop.induct)
  case (1 H key32 nonce32 data offset counter)
  let ?blk = "block_bytes H (chacha20Block key32 counter nonce32)"
  let ?n = "min (length data - offset) 64"
  let ?data = "xor_range data offset ?blk ?n"
  have blk: "length ?blk = 64"
    using "1.prems" by (simp add: length_block_bytes length_chacha20Block)
  show ?case
  proof (cases "offset < length data")
    case False
    then show ?thesis using "1.prems" by (subst chacha20Xor_loop.simps) simp
  next
    case True
    have IH: "chacha20Xor_loop H key32 nonce32 ?data (offset + ?n) (counter + 1) ! i =
      (if i < offset + ?n then ?data ! i
       else ?data ! i XOR keystream_block H key32 nonce32 (counter + 1)
              ((i - (offset + ?n)) div 64) ! ((i - (offset + ?n)) mod 64))"
      using "1.IH" [OF True refl refl] "1.prems" by simp
    have at: "?data ! i = (if offset \<le> i \<and> i < offset + ?n then data ! i XOR ?blk ! (i - offset) else data ! i)"
      using "1.prems" blk True by (intro xor_range_nth) auto
    consider "i < offset" | "offset \<le> i" "i < offset + 64" | "offset + 64 \<le> i" by linarith
    then show ?thesis
    proof cases
      case 3
      then have n: "?n = 64" using "1.prems" by simp
      have "(i - offset) div 64 = Suc ((i - (offset + 64)) div 64)"
        and "(i - offset) mod 64 = (i - (offset + 64)) mod 64"
        using 3 by (simp_all add: le_div_geq le_mod_geq)
      then show ?thesis
        using 3 n IH at True
        by (subst chacha20Xor_loop.simps) (simp add: Let_def keystream_block_def add_ac)
    next
      case 2
      then have "i < offset + ?n" and "(i - offset) div 64 = 0" and "(i - offset) mod 64 = i - offset"
        using "1.prems" by auto
      then show ?thesis
        using 2 IH at True by (subst chacha20Xor_loop.simps) (simp add: Let_def keystream_block_def)
    qed (use IH at True in \<open>subst chacha20Xor_loop.simps, simp add: Let_def\<close>)
  qed
qed

lemma chacha20Xor_nth:
  assumes "i < length data"
  shows "chacha20Xor H data key nonce counter ! i =
    data ! i XOR keystream_block H (load_words H 8 key) (load_words H 3 nonce) counter (i div 64) ! (i mod 64)"
  using assms by (simp add: chacha20Xor_def chacha20Xor_loop_nth)

lemma chacha20Xor_twice: "chacha20Xor H (chacha20Xor H data key nonce c) key nonce c = data"
  by (rule nth_equalityI) (simp_all add: chacha20Xor_nth xor.assoc)

lemma chacha20Xor_inj:
  "chacha20Xor H a key nonce c = chacha20Xor H b key nonce c \<longleftrightarrow> a = b"
  by (metis chacha20Xor_twice)

lemma chacha20Xor_Nil [simp]: "chacha20Xor H [] key nonce c = []"
  using length_chacha20Xor [of H "[]" key nonce c] by (simp del: length_chacha20Xor)

end
