(* ===== verification/Poly_Mac.thy ===== *)
theory Poly_Mac
  imports Prelude
begin

text \<open>
  The message authentication code of \<open>CryptoEngine.cpp\<close>, \<open>computePoly1305Mac\<close>: two 64-bit
  accumulators, a loop over 16-byte blocks, and a tag of 16 bytes. The key supplies two 28-bit
  multipliers, both multiples of 4, and two pads. Since every product is taken modulo
  \<open>2 ^ 64\<close>, each further block shifts what came before out of the accumulators; the last
  section draws the consequences.
\<close>

section \<open>Operations\<close>

text \<open>\<open>1ULL << (blockLen * 8 > 64 ? (blockLen - 8) * 8 : 0)\<close>: for a full block the count is
  64, which C++ leaves undefined; the host's value is used there.\<close>

definition block_marker :: "host \<Rightarrow> nat \<Rightarrow> 64 word" where
  "block_marker H blockLen =
     (let sh = (if blockLen * 8 > 64 then (blockLen - 8) * 8 else 0)
      in if sh < 64 then push_bit sh 1 else host_shl64 H)"

definition block_m0 :: "bytes \<Rightarrow> nat \<Rightarrow> nat \<Rightarrow> 64 word" where
  "block_m0 msg offset blockLen =
     fold (\<lambda>i m. m OR push_bit (i * 8) (ucast (msg ! (offset + i)))) [0..<min blockLen 8] 0"

definition block_m1 :: "bytes \<Rightarrow> nat \<Rightarrow> nat \<Rightarrow> 64 word" where
  "block_m1 msg offset blockLen =
     fold (\<lambda>i m. m OR push_bit ((i - 8) * 8) (ucast (msg ! (offset + i)))) [8..<blockLen] 0"

function mac_loop ::
    "host \<Rightarrow> bytes \<Rightarrow> 64 word \<Rightarrow> 64 word \<Rightarrow> nat \<Rightarrow> 64 word \<Rightarrow> 64 word \<Rightarrow> 64 word \<times> 64 word" where
  "mac_loop H msg r0 r1 offset h0 h1 =
     (if offset < length msg
      then let blockLen = min (length msg - offset) 16;
               m0 = block_m0 msg offset blockLen;
               m1 = block_m1 msg offset blockLen;
               h0 = h0 + m0;
               h1 = h1 + (m1 + block_marker H blockLen);
               nh0 = h0 * r0 + h1 * r1;
               nh1 = h0 * r1 + h1 * r0
           in mac_loop H msg r0 r1 (offset + blockLen) nh0 nh1
      else (h0, h1))"
  by pat_completeness auto
termination
  by (relation "measure (\<lambda>(H, msg, r0, r1, offset, h0, h1). length msg - offset)") auto

declare mac_loop.simps [simp del]

definition mac_r :: "host \<Rightarrow> bytes \<Rightarrow> nat \<Rightarrow> 64 word" where
  "mac_r H key i = ucast ((mem_load H (peek key (4 * i) 4) :: 32 word) AND 0x0ffffffc)"

definition mac_pad :: "host \<Rightarrow> bytes \<Rightarrow> nat \<Rightarrow> 64 word" where
  "mac_pad H key i = ucast (mem_load H (peek key (4 * i) 4) :: 32 word)"

definition computePoly1305Mac :: "host \<Rightarrow> bytes \<Rightarrow> bytes \<Rightarrow> bytes" where
  "computePoly1305Mac H msg key =
     (case mac_loop H msg (mac_r H key 0) (mac_r H key 1) 0 0 0 of
        (h0, h1) \<Rightarrow>
          let h0 = h0 + mac_pad H key 2; h1 = h1 + mac_pad H key 3
          in map (\<lambda>i. ucast (drop_bit (i * 8) h0)) [0..<8] @
             map (\<lambda>i. ucast (drop_bit (i * 8) h1)) [0..<8])"

lemma length_computePoly1305Mac [simp, size_simps]: "length (computePoly1305Mac H msg key) = 16"
  by (simp add: computePoly1305Mac_def Let_def split: prod.split)

section \<open>One block\<close>

text \<open>The loop reads a block through its bytes only, so it can be followed on the list of blocks.\<close>

definition mac_step :: "host \<Rightarrow> 64 word \<Rightarrow> 64 word \<Rightarrow> bytes \<Rightarrow> 64 word \<times> 64 word \<Rightarrow> 64 word \<times> 64 word" where
  "mac_step H r0 r1 blk h =
     (let h0 = fst h + block_m0 blk 0 (length blk);
          h1 = snd h + (block_m1 blk 0 (length blk) + block_marker H (length blk))
      in (h0 * r0 + h1 * r1, h0 * r1 + h1 * r0))"

function mac_blocks :: "host \<Rightarrow> 64 word \<Rightarrow> 64 word \<Rightarrow> bytes \<Rightarrow> 64 word \<times> 64 word \<Rightarrow> 64 word \<times> 64 word" where
  "mac_blocks H r0 r1 msg h =
     (if msg = [] then h else mac_blocks H r0 r1 (drop 16 msg) (mac_step H r0 r1 (take 16 msg) h))"
  by pat_completeness auto
termination
  by (relation "measure (\<lambda>(H, r0, r1, msg, h). length msg)") auto

declare mac_blocks.simps [simp del]

lemma mac_blocks_Nil [simp]: "mac_blocks H r0 r1 [] h = h"
  by (simp add: mac_blocks.simps)

lemma mac_blocks_step:
  "msg \<noteq> [] \<Longrightarrow>
   mac_blocks H r0 r1 msg h = mac_blocks H r0 r1 (drop 16 msg) (mac_step H r0 r1 (take 16 msg) h)"
  by (subst mac_blocks.simps) simp

lemma block_m_shift:
  assumes "offset + n \<le> length msg"
  shows "block_m0 msg offset n = block_m0 (take n (drop offset msg)) 0 n"
    and "block_m1 msg offset n = block_m1 (take n (drop offset msg)) 0 n"
  unfolding block_m0_def block_m1_def
  by (rule fold_cong; use assms in simp)+

lemma mac_loop_blocks:
  "mac_loop H msg r0 r1 offset h0 h1 = mac_blocks H r0 r1 (drop offset msg) (h0, h1)"
proof (induction H msg r0 r1 offset h0 h1 rule: mac_loop.induct)
  case (1 H msg r0 r1 offset h0 h1)
  show ?case
  proof (cases "offset < length msg")
    case False
    then show ?thesis by (simp add: mac_loop.simps)
  next
    case True
    let ?n = "min (length msg - offset) 16"
    have blk: "take 16 (drop offset msg) = take ?n (drop offset msg)" by (simp add: min_def)
    have rest: "drop (16 + offset) msg = drop (offset + ?n) msg"
      by (cases "length msg - offset < 16") (simp_all add: add.commute)
    show ?thesis
      using True "1.IH" [OF True refl refl refl refl refl refl refl]
      by (subst mac_loop.simps)
         (simp add: Let_def mac_blocks_step mac_step_def rest blk block_m_shift [of offset ?n msg])
  qed
qed

lemma mac_blocks_append:
  "16 dvd length a \<Longrightarrow> mac_blocks H r0 r1 (a @ b) h = mac_blocks H r0 r1 b (mac_blocks H r0 r1 a h)"
proof (induction "length a" arbitrary: a h rule: less_induct)
  case less
  show ?case
  proof (cases "a = []")
    case True
    then show ?thesis by simp
  next
    case False
    then have "16 \<le> length a" using less.prems by (auto dest: dvd_imp_le)
    then show ?thesis
      using less False by (simp add: mac_blocks_step [of a] mac_blocks_step [of "a @ b"] dvd_diff_nat)
  qed
qed

section \<open>What a block does to a difference\<close>

lemma four_dvd_mac_r: "4 dvd mac_r H key i"
proof -
  have "take_bit 2 (mac_r H key i) = 0"
  proof (rule bit_word_eqI)
    fix j :: nat
    show "bit (take_bit 2 (mac_r H key i)) j = bit (0 :: 64 word) j"
      by (cases "j = 0"; cases "j = 1")
         (auto simp: mac_r_def bit_take_bit_iff bit_ucast_iff bit_and_iff bit_simps)
  qed
  then show ?thesis by (simp add: take_bit_eq_0_iff)
qed

definition diff_dvd :: "64 word \<Rightarrow> 64 word \<times> 64 word \<Rightarrow> 64 word \<times> 64 word \<Rightarrow> bool" where
  "diff_dvd d h h' \<longleftrightarrow> d dvd fst h - fst h' \<and> d dvd snd h - snd h'"

lemma diff_dvd_refl [simp]: "diff_dvd d h h"
  by (simp add: diff_dvd_def)

lemma diff_dvd_1 [simp]: "diff_dvd 1 h h'"
  by (simp add: diff_dvd_def)

lemma diff_dvd_0: "diff_dvd 0 h h' \<longleftrightarrow> h = h'"
  by (auto simp: diff_dvd_def prod_eq_iff)

lemma diff_dvd_linear:
  fixes d x y x' y' r0 r1 :: "64 word"
  assumes "d dvd x - x'" and "d dvd y - y'" and "4 dvd r0" and "4 dvd r1"
  shows "d * 4 dvd (x * r0 + y * r1) - (x' * r0 + y' * r1)"
proof -
  have "d * 4 dvd (x - x') * r0 + (y - y') * r1"
    using assms by (intro dvd_add mult_dvd_mono)
  then show ?thesis by (simp add: algebra_simps)
qed

lemma diff_dvd_step:
  assumes "diff_dvd d h h'" and "4 dvd r0" and "4 dvd r1"
  shows "diff_dvd (d * 4) (mac_step H r0 r1 blk h) (mac_step H r0 r1 blk h')"
  using assms
  by (simp add: diff_dvd_def mac_step_def Let_def diff_dvd_linear)

lemma ceil_div_16:
  assumes "0 < (n :: nat)"
  shows "(n + 15) div 16 = Suc ((n - 16 + 15) div 16)"
proof (cases "n \<le> 16")
  case True
  then have "n - 16 = 0" and "(n + 15) div 16 = 1"
    using assms by (auto intro: div_nat_eqI)
  then show ?thesis by simp
next
  case False
  then have "n + 15 = (n - 16 + 15) + 16" by simp
  then show ?thesis by (metis Suc_eq_plus1 div_add_self2 zero_neq_numeral)
qed

lemma diff_dvd_blocks:
  assumes "diff_dvd d h h'" and "4 dvd r0" and "4 dvd r1"
  shows "diff_dvd (d * 4 ^ ((length msg + 15) div 16))
           (mac_blocks H r0 r1 msg h) (mac_blocks H r0 r1 msg h')"
  using assms(1)
proof (induction "length msg" arbitrary: msg d h h' rule: less_induct)
  case less
  show ?case
  proof (cases "msg = []")
    case True
    then show ?thesis using less.prems by simp
  next
    case False
    then have "0 < length msg" by simp
    then have "(length msg + 15) div 16 = Suc ((length (drop 16 msg) + 15) div 16)"
      unfolding length_drop by (rule ceil_div_16)
    then have "d * 4 ^ ((length msg + 15) div 16) = d * 4 * 4 ^ ((length (drop 16 msg) + 15) div 16)"
      by (simp only: power_Suc mult.assoc)
    moreover have "length (drop 16 msg) < length msg" using False by simp
    ultimately show ?thesis
      using less(1) [of "drop 16 msg", OF _ diff_dvd_step [OF less.prems assms(2,3)]]
      by (simp only: mac_blocks_step [OF False])
  qed
qed

lemma four_pow_32: "n \<ge> 32 \<Longrightarrow> (4 :: 64 word) ^ n = 0"
proof -
  assume "n \<ge> 32"
  then have "(4 :: 64 word) ^ n = 4 ^ (32 + (n - 32))" by simp
  also have "\<dots> = 4 ^ 32 * 4 ^ (n - 32)" by (simp only: power_add)
  also have "(4 :: 64 word) ^ 32 = 0" by simp
  finally show ?thesis by simp
qed

lemma mac_blocks_forget:
  assumes "496 < length suffix" and "4 dvd r0" and "4 dvd r1"
  shows "mac_blocks H r0 r1 suffix h = mac_blocks H r0 r1 suffix h'"
proof -
  have "diff_dvd (1 * 4 ^ ((length suffix + 15) div 16))
      (mac_blocks H r0 r1 suffix h) (mac_blocks H r0 r1 suffix h')"
    by (intro diff_dvd_blocks diff_dvd_1 assms)
  moreover have "(length suffix + 15) div 16 \<ge> 32" using assms(1) by linarith
  ultimately show ?thesis by (simp add: four_pow_32 diff_dvd_0)
qed

lemma mac_as_blocks:
  "computePoly1305Mac H msg key =
     (case mac_blocks H (mac_r H key 0) (mac_r H key 1) msg (0, 0) of
        (h0, h1) \<Rightarrow> le_bytes 8 (h0 + mac_pad H key 2) @ le_bytes 8 (h1 + mac_pad H key 3))"
  by (simp add: computePoly1305Mac_def mac_loop_blocks le_bytes_def Let_def mult.commute
      split: prod.split)

lemma mac_forgets_prefix:
  assumes "16 dvd length a" and "16 dvd length b" and "496 < length suffix"
  shows "computePoly1305Mac H (a @ suffix) key = computePoly1305Mac H (b @ suffix) key"
proof -
  have "mac_blocks H (mac_r H key 0) (mac_r H key 1) (a @ suffix) (0, 0) =
      mac_blocks H (mac_r H key 0) (mac_r H key 1) (b @ suffix) (0, 0)"
    unfolding mac_blocks_append [OF assms(1)] mac_blocks_append [OF assms(2)]
    by (rule mac_blocks_forget [OF assms(3) four_dvd_mac_r four_dvd_mac_r])
  then show ?thesis by (simp only: mac_as_blocks)
qed

section \<open>The two top bits of an accumulator\<close>

lemma bit_fold_bytes:
  "bit (fold (\<lambda>i m. m OR push_bit (i * 8) (ucast (f i :: byte))) [0..<k] (0 :: 64 word)) j \<longleftrightarrow>
     j < 64 \<and> j div 8 < k \<and> bit (f (j div 8)) (j mod 8)"
proof (induction k)
  case 0
  then show ?case by simp
next
  case (Suc k)
  have "bit (push_bit (k * 8) (ucast (f k)) :: 64 word) j \<longleftrightarrow>
      j < 64 \<and> j div 8 = k \<and> bit (f (j div 8)) (j mod 8)"
  proof (cases "j div 8 = k")
    case True
    then have "j mod 8 = j - k * 8" and "k * 8 \<le> j" and "j - k * 8 < 8"
      by (auto simp: minus_mult_div_eq_mod [symmetric])
    then show ?thesis using True by (auto simp: bit_push_bit_iff bit_ucast_iff)
  next
    case False
    then have "\<not> bit (f k) (j - k * 8)" if "k * 8 \<le> j"
      using that bit_imp_le_length [of "f k" "j - k * 8"] by auto
    then show ?thesis using False by (auto simp: bit_push_bit_iff bit_ucast_iff)
  qed
  then show ?case using Suc by (auto simp: bit_or_iff)
qed

lemma bit_block_m0:
  "bit (block_m0 msg offset n) j \<longleftrightarrow>
     j < 64 \<and> j div 8 < n \<and> bit (msg ! (offset + j div 8)) (j mod 8)"
  unfolding block_m0_def bit_fold_bytes by auto

lemma bit_block_m1:
  "bit (block_m1 msg offset n) j \<longleftrightarrow>
     j < 64 \<and> 8 + j div 8 < n \<and> bit (msg ! (offset + (8 + j div 8))) (j mod 8)"
proof -
  have "block_m1 msg offset n =
      fold (\<lambda>i m. m OR push_bit (i * 8) (ucast (msg ! (offset + (8 + i))))) [0..<n - 8] 0"
  proof (cases "8 \<le> n")
    case True
    then have "[8..<n] = map (\<lambda>i. i + 8) [0..<n - 8]" by (simp add: map_add_upt)
    then show ?thesis by (simp add: block_m1_def fold_map comp_def add.commute)
  qed (simp add: block_m1_def)
  then show ?thesis by (auto simp: bit_fold_bytes)
qed

lemma take_bit_eq_dvd:
  assumes "take_bit n a = take_bit n (b :: 64 word)"
  shows "2 ^ n dvd a - b"
proof -
  have "a - b = push_bit n (drop_bit n a) - push_bit n (drop_bit n b)"
    using bits_ident [of n a] bits_ident [of n b] assms by (metis add_diff_cancel_right)
  also have "\<dots> = 2 ^ n * (drop_bit n a - drop_bit n b)"
    by (simp add: push_bit_eq_mult right_diff_distrib mult.commute)
  finally show ?thesis by (simp only: dvd_triv_left)
qed

lemma linear_ignores_top:
  fixes x y x' y' r0 r1 :: "64 word"
  assumes "take_bit 62 x = take_bit 62 x'" and "take_bit 62 y = take_bit 62 y'"
    and "4 dvd r0" and "4 dvd r1"
  shows "(x + u) * r0 + (y + v) * r1 = (x' + u) * r0 + (y' + v) * r1"
proof -
  have "2 ^ 62 * 4 dvd ((x + u) * r0 + (y + v) * r1) - ((x' + u) * r0 + (y' + v) * r1)"
    using take_bit_eq_dvd [OF assms(1)] take_bit_eq_dvd [OF assms(2)] assms(3,4)
    by (intro diff_dvd_linear) simp_all
  moreover have "(2 :: 64 word) ^ 62 * 4 = 0" by simp
  ultimately show ?thesis by (simp only: dvd_0_left_iff right_minus_eq)
qed

lemma mac_step_ignores_top:
  assumes "length blk' = length blk" and "4 dvd r0" and "4 dvd r1"
    and same: "\<And>i. i < length blk \<Longrightarrow> i mod 8 \<noteq> 7 \<Longrightarrow> blk' ! i = blk ! i"
    and top: "\<And>i. i < length blk \<Longrightarrow> take_bit 6 (blk' ! i) = take_bit 6 (blk ! i)"
  shows "mac_step H r0 r1 blk' h = mac_step H r0 r1 blk h"
proof -
  have eq: "bit (blk' ! i) k = bit (blk ! i) k" if "i < length blk" "i mod 8 = 7 \<longrightarrow> k < 6" for i k
    using that same [of i] top [of i] by (metis bit_take_bit_iff)
  have low: "j mod 8 < 6" if "j < 62" and "j div 8 mod 8 = 7" for j :: nat
  proof -
    have "j div 8 = 7" using that by simp
    then show ?thesis using that(1) mult_div_mod_eq [of 8 j] by linarith
  qed
  have "take_bit 62 (block_m0 blk' 0 (length blk)) = take_bit 62 (block_m0 blk 0 (length blk))"
  proof (rule bit_word_eqI)
    fix j
    show "bit (take_bit 62 (block_m0 blk' 0 (length blk))) j =
        bit (take_bit 62 (block_m0 blk 0 (length blk))) j"
      using eq low [of j] by (auto simp: bit_take_bit_iff bit_block_m0)
  qed
  moreover have "take_bit 62 (block_m1 blk' 0 (length blk)) = take_bit 62 (block_m1 blk 0 (length blk))"
  proof (rule bit_word_eqI)
    fix j
    show "bit (take_bit 62 (block_m1 blk' 0 (length blk))) j =
        bit (take_bit 62 (block_m1 blk 0 (length blk))) j"
      using eq low [of j] by (auto simp: bit_take_bit_iff bit_block_m1)
  qed
  ultimately have lin: "(block_m0 blk' 0 (length blk) + u) * r + (block_m1 blk' 0 (length blk) + v) * r' =
      (block_m0 blk 0 (length blk) + u) * r + (block_m1 blk 0 (length blk) + v) * r'"
    if "4 dvd r" and "4 dvd r'" for u v r r' :: "64 word"
    using that by (rule linear_ignores_top)
  have arrange: "fst h + m0 = m0 + fst h" "snd h + (m1 + k) = m1 + (snd h + k)" for m0 m1 k :: "64 word"
    by (simp_all add: add_ac)
  show ?thesis
    unfolding mac_step_def Let_def assms(1) arrange lin [OF assms(2,3)] lin [OF assms(3,2)] ..
qed

lemma list_update_length_append: "(a @ c)[length a + j := b] = a @ c[j := b]"
  by (simp add: list_update_append)

lemma mac_ignores_top_bits:
  assumes i: "i < length msg" and "i mod 8 = 7" and "take_bit 6 b = take_bit 6 (msg ! i)"
  shows "computePoly1305Mac H (msg[i := b]) key = computePoly1305Mac H msg key"
proof -
  obtain q j where k: "i = 16 * q + j" and j16: "j < 16"
    by (metis mult_div_mod_eq mod_less_divisor zero_less_numeral)
  let ?a = "take (16 * q) msg" and ?c = "drop (16 * q) msg"
  have len_a: "length ?a = 16 * q" using i k by simp
  then have a16: "16 dvd length ?a" by simp
  have j: "j < length ?c" using i k by simp
  have "msg[i := b] = (?a @ ?c)[length ?a + j := b]" using len_a k by simp
  then have upd: "msg[i := b] = ?a @ ?c[j := b]" by (simp only: list_update_length_append)
  have ne: "?c \<noteq> []" "?c[j := b] \<noteq> []" using i k by simp_all
  have top: "j mod 8 = 7" "msg ! i = ?c ! j"
    using assms(2) k i by (presburger, simp)
  have step: "mac_step H r0 r1 (take 16 (?c[j := b])) h = mac_step H r0 r1 (take 16 ?c) h"
    if "4 dvd r0" "4 dvd r1" for r0 r1 h
  proof (rule mac_step_ignores_top)
    fix m assume "m < length (take 16 ?c)"
    then show "take_bit 6 (take 16 (?c[j := b]) ! m) = take_bit 6 (take 16 ?c ! m)"
      using assms(3) top(2) j by (simp add: nth_list_update)
    assume "m mod 8 \<noteq> 7"
    then have "m \<noteq> j" using top(1) by blast
    then show "take 16 (?c[j := b]) ! m = take 16 ?c ! m"
      using \<open>m < length (take 16 ?c)\<close> by simp
  qed (simp_all add: that)
  have "mac_blocks H (mac_r H key 0) (mac_r H key 1) (?a @ ?c[j := b]) h =
      mac_blocks H (mac_r H key 0) (mac_r H key 1) (?a @ ?c) h" for h
    unfolding mac_blocks_append [OF a16] mac_blocks_step [OF ne(1)] mac_blocks_step [OF ne(2)]
    using j16 by (simp add: step four_dvd_mac_r drop_update_cancel)
  then show ?thesis unfolding upd by (simp add: mac_as_blocks)
qed

lemma mac_Nil:
  "computePoly1305Mac H [] key = le_bytes 8 (mac_pad H key 2) @ le_bytes 8 (mac_pad H key 3)"
  by (simp add: mac_as_blocks)

end
