(* ===== verification/Crypto_Engine.thy ===== *)
theory Crypto_Engine
  imports Chacha Poly_Mac
begin

text \<open>
  \<open>rap::security::CryptoEngine\<close> (\<open>libs/security\<close>): key pairs, the shared secret, and
  authenticated encryption built from the cipher of \<open>Chacha\<close> and the tag of \<open>Poly_Mac\<close>.
  Exceptions are the left values of a sum; the random source of the platform is a parameter.
\<close>

definition KEY_SIZE :: nat where "KEY_SIZE = 32"

definition NONCE_SIZE :: nat where "NONCE_SIZE = 12"

definition TAG_SIZE :: nat where "TAG_SIZE = 16"

lemmas crypto_sizes = KEY_SIZE_def NONCE_SIZE_def TAG_SIZE_def

datatype crypto_error = InvalidArgument

record KeyPair =
  publicKey :: bytes
  privateKey :: bytes

section \<open>Operations\<close>

text \<open>
  What \<open>generateRandomBytes\<close> meets outside: the bytes \<open>/dev/urandom\<close> delivers, if it opens,
  and the numbers of the seeded generator otherwise.
\<close>

record entropy =
  urandom :: "bytes option"
  dis :: "nat \<Rightarrow> 16 word"

definition generateRandomBytes :: "entropy \<Rightarrow> nat \<Rightarrow> bytes" where
  "generateRandomBytes env count =
     (let buffer = replicate count 0
      in case urandom env of
           Some src \<Rightarrow> poke buffer 0 (take count src)
         | None \<Rightarrow> fold (\<lambda>i b. b[i := ucast (dis env i)]) [0..<count] buffer)"

definition generateKeyPair :: "entropy \<Rightarrow> KeyPair" where
  "generateKeyPair env =
     (let priv = generateRandomBytes env KEY_SIZE;
          pub = fold (\<lambda>i k. k[i := k ! i XOR 0x5A]) [0..<KEY_SIZE] priv
      in \<lparr>publicKey = pub, privateKey = priv\<rparr>)"

definition deriveSharedSecret :: "bytes \<Rightarrow> bytes \<Rightarrow> crypto_error + bytes" where
  "deriveSharedSecret ourPrivateKey peerPublicKey =
     (if length ourPrivateKey \<noteq> KEY_SIZE \<or> length peerPublicKey \<noteq> KEY_SIZE
      then Inl InvalidArgument
      else Inr (map (\<lambda>i. ourPrivateKey ! i XOR peerPublicKey ! i) [0..<KEY_SIZE]))"

definition encryptPayload :: "host \<Rightarrow> bytes \<Rightarrow> bytes \<Rightarrow> bytes \<Rightarrow> crypto_error + bytes" where
  "encryptPayload H plaintext key nonce =
     (if length key \<noteq> KEY_SIZE \<or> length nonce \<noteq> NONCE_SIZE then Inl InvalidArgument
      else let ciphertext = chacha20Xor H plaintext key nonce 1;
               tag = computePoly1305Mac H ciphertext key
           in Inr (ciphertext @ tag))"

definition tag_diff :: "bytes \<Rightarrow> bytes \<Rightarrow> byte" where
  "tag_diff tag expected = fold (\<lambda>i diff. diff OR (tag ! i XOR expected ! i)) [0..<TAG_SIZE] 0"

definition decryptPayload :: "host \<Rightarrow> bytes \<Rightarrow> bytes \<Rightarrow> bytes \<Rightarrow> bytes option" where
  "decryptPayload H ciphertext key nonce =
     (if length key \<noteq> KEY_SIZE \<or> length nonce \<noteq> NONCE_SIZE \<or> length ciphertext < TAG_SIZE
      then None
      else
        let payloadSize = length ciphertext - TAG_SIZE;
            tag = drop payloadSize ciphertext;
            expectedTag = computePoly1305Mac H (take payloadSize ciphertext) key
        in if tag_diff tag expectedTag \<noteq> 0 then None
           else Some (chacha20Xor H (take payloadSize ciphertext) key nonce 1))"

section \<open>Keys\<close>

lemma fold_update_each:
  assumes "n \<le> length xs"
  shows "length (fold (\<lambda>i k. k[i := f i (k ! i)]) [0..<n] xs) = length xs"
    and "m < length xs \<Longrightarrow>
      fold (\<lambda>i k. k[i := f i (k ! i)]) [0..<n] xs ! m = (if m < n then f m (xs ! m) else xs ! m)"
  using assms by (induction n) (auto simp: nth_list_update less_Suc_eq)

lemma length_generateRandomBytes [simp, size_simps]: "length (generateRandomBytes env n) = n"
proof -
  have "length (fold (\<lambda>i b. b[i := f i]) [0..<k] (replicate n (0 :: byte))) = n" for k f
    by (induction k) simp_all
  then show ?thesis
    by (simp add: generateRandomBytes_def poke_def Let_def split: option.split)
qed

lemma generateKeyPair_keys:
  "length (privateKey (generateKeyPair env)) = KEY_SIZE"
  "publicKey (generateKeyPair env) = map (\<lambda>b. b XOR 0x5A) (privateKey (generateKeyPair env))"
proof -
  show "length (privateKey (generateKeyPair env)) = KEY_SIZE"
    by (simp add: generateKeyPair_def Let_def)
  show "publicKey (generateKeyPair env) = map (\<lambda>b. b XOR 0x5A) (privateKey (generateKeyPair env))"
    by (rule nth_equalityI) (simp_all add: generateKeyPair_def Let_def
        fold_update_each [where f = "\<lambda>_ x. x XOR 0x5A"])
qed

lemma deriveSharedSecret_xor:
  "length a = KEY_SIZE \<Longrightarrow> length b = KEY_SIZE \<Longrightarrow> deriveSharedSecret a b = Inr (xor_bytes a b)"
  by (auto simp: deriveSharedSecret_def xor_bytes_def intro!: nth_equalityI)

section \<open>Authenticated encryption\<close>

lemma tag_diff_zero_iff:
  assumes "length tag = TAG_SIZE" and "length expected = TAG_SIZE"
  shows "tag_diff tag expected = 0 \<longleftrightarrow> tag = expected"
proof -
  have or0: "u OR v = 0 \<longleftrightarrow> u = 0 \<and> v = 0" for u v :: byte
    by (auto simp: or_eq_0_iff)
  have "fold (\<lambda>i diff. diff OR (tag ! i XOR expected ! i)) [0..<n] 0 = 0 \<longleftrightarrow>
      (\<forall>i<n. tag ! i = expected ! i)" for n
    by (induction n) (auto simp: or0 less_Suc_eq xor_eq_0_iff)
  then show ?thesis
    using assms by (auto simp: tag_diff_def list_eq_iff_nth_eq)
qed

lemma encryptPayload_ok:
  "length key = KEY_SIZE \<Longrightarrow> length nonce = NONCE_SIZE \<Longrightarrow>
   encryptPayload H p key nonce =
     Inr (chacha20Xor H p key nonce 1 @ computePoly1305Mac H (chacha20Xor H p key nonce 1) key)"
  by (simp add: encryptPayload_def Let_def)

lemma encryptPayload_Inr_iff:
  "encryptPayload H p key nonce = Inr c \<longleftrightarrow>
     length key = KEY_SIZE \<and> length nonce = NONCE_SIZE \<and>
     c = chacha20Xor H p key nonce 1 @ computePoly1305Mac H (chacha20Xor H p key nonce 1) key"
  by (auto simp: encryptPayload_def Let_def)

lemma decryptPayload_split:
  assumes "length key = KEY_SIZE" and "length nonce = NONCE_SIZE" and "length tag = TAG_SIZE"
  shows "decryptPayload H (c @ tag) key nonce =
    (if tag = computePoly1305Mac H c key then Some (chacha20Xor H c key nonce 1) else None)"
  using assms by (simp add: decryptPayload_def Let_def tag_diff_zero_iff TAG_SIZE_def)

lemma decryptPayload_None:
  "length key \<noteq> KEY_SIZE \<or> length nonce \<noteq> NONCE_SIZE \<or> length c < TAG_SIZE \<Longrightarrow>
   decryptPayload H c key nonce = None"
  by (auto simp: decryptPayload_def)

lemma ciphertext_split:
  assumes "TAG_SIZE \<le> length c"
  obtains body tag where "c = body @ tag" and "length tag = TAG_SIZE"
  using assms that [of "take (length c - TAG_SIZE) c" "drop (length c - TAG_SIZE) c"] by simp

lemma decrypt_iff_encrypt:
  "decryptPayload H c key nonce = Some p \<longleftrightarrow> encryptPayload H p key nonce = Inr c"
proof (cases "length key = KEY_SIZE \<and> length nonce = NONCE_SIZE \<and> TAG_SIZE \<le> length c")
  case False
  then have "decryptPayload H c key nonce = None" by (intro decryptPayload_None) auto
  moreover have "encryptPayload H p key nonce \<noteq> Inr c"
    using False by (auto simp: encryptPayload_Inr_iff TAG_SIZE_def)
  ultimately show ?thesis by simp
next
  case True
  then obtain body tag where c: "c = body @ tag" "length tag = TAG_SIZE"
    using ciphertext_split by blast
  have "body @ tag = chacha20Xor H p key nonce 1 @ computePoly1305Mac H (chacha20Xor H p key nonce 1) key \<longleftrightarrow>
      body = chacha20Xor H p key nonce 1 \<and> tag = computePoly1305Mac H body key"
    using c(2) by (auto simp: append_eq_append_conv TAG_SIZE_def)
  moreover have "body = chacha20Xor H p key nonce 1 \<longleftrightarrow> chacha20Xor H body key nonce 1 = p"
    by (metis chacha20Xor_twice)
  ultimately show ?thesis
    using True c by (auto simp: decryptPayload_split encryptPayload_Inr_iff)
qed

lemma length_encryptPayload:
  "encryptPayload H p key nonce = Inr c \<Longrightarrow> length c = length p + TAG_SIZE"
  by (auto simp: encryptPayload_Inr_iff TAG_SIZE_def)

section \<open>The interface the protocol's ends use\<close>

locale sealed_box =
  fixes seal :: "bytes \<Rightarrow> bytes \<Rightarrow> bytes \<Rightarrow> 'e + bytes"
    and unseal :: "bytes \<Rightarrow> bytes \<Rightarrow> bytes \<Rightarrow> bytes option"
    and usable :: "bytes \<Rightarrow> bytes \<Rightarrow> bool"
    and overhead :: nat
  assumes seal_usable: "usable key nonce \<longleftrightarrow> (\<exists>c. seal p key nonce = Inr c)"
    and unseal_iff: "unseal c key nonce = Some p \<longleftrightarrow> seal p key nonce = Inr c"
    and seal_length: "seal p key nonce = Inr c \<Longrightarrow> length c = length p + overhead"
begin

lemma seal_obtain:
  assumes "usable key nonce"
  obtains c where "seal p key nonce = Inr c" and "unseal c key nonce = Some p"
    and "length c = length p + overhead"
  using assms seal_usable [of key nonce p] unseal_iff seal_length by blast

lemma unseal_usable: "unseal c key nonce = Some p \<Longrightarrow> usable key nonce"
  using seal_usable unseal_iff by blast

lemma seal_inj: "seal p key nonce = Inr c \<Longrightarrow> seal q key nonce = Inr c \<Longrightarrow> p = q"
  using unseal_iff by (metis option.inject)

lemma unseal_inj: "unseal c key nonce = Some p \<Longrightarrow> unseal d key nonce = Some p \<Longrightarrow> c = d"
  using unseal_iff by (metis sum.inject(2))

lemma unseal_short: "length c < overhead \<Longrightarrow> unseal c key nonce = None"
  using unseal_iff seal_length by (metis add.commute le_add1 not_less not_None_eq)

end

interpretation crypto: sealed_box "encryptPayload H" "decryptPayload H"
  "\<lambda>key nonce. length key = KEY_SIZE \<and> length nonce = NONCE_SIZE" TAG_SIZE for H
  by unfold_locales
     (simp add: encryptPayload_Inr_iff, rule decrypt_iff_encrypt, erule length_encryptPayload)

section \<open>What the tag does not protect\<close>

lemma decrypt_accepts_iff:
  assumes "length key = KEY_SIZE" and "length nonce = NONCE_SIZE" and "length tag = TAG_SIZE"
  shows "decryptPayload H (c @ tag) key nonce \<noteq> None \<longleftrightarrow> tag = computePoly1305Mac H c key"
  using assms by (simp add: decryptPayload_split)

lemma take_drop_le_bytes_ucast:
  "take 4 (le_bytes 8 (ucast (w :: 32 word) :: 64 word)) = le_bytes 4 w"
proof -
  have eq: "ucast (drop_bit (8 * i) (ucast w :: 64 word)) = (ucast (drop_bit (8 * i) w) :: byte)"
    if "i < 4" for i
    by (rule bit_word_eqI) (use that in \<open>auto simp: bit_ucast_iff bit_drop_bit_eq\<close>)
  show ?thesis by (simp add: le_bytes_def take_map eq)
qed

section \<open>Properties\<close>

text \<open>C31: the cipher, an in-place loop over 64-byte blocks with a running counter, xors byte
  \<open>i\<close> of the buffer with byte \<open>i mod 64\<close> of the block made from counter \<open>i div 64\<close> past the
  first, keeps the length, and undoes itself.\<close>

theorem chacha20Xor_is_keystream_xor:
  "length (chacha20Xor H data key nonce c) = length data \<and>
   (\<forall>i. i < length data \<longrightarrow>
     chacha20Xor H data key nonce c ! i =
       data ! i XOR
       block_bytes H (chacha20Block (load_words H 8 key) (c + of_nat (i div 64)) (load_words H 3 nonce))
         ! (i mod 64)) \<and>
   chacha20Xor H (chacha20Xor H data key nonce c) key nonce c = data"
  by (simp add: chacha20Xor_nth chacha20Xor_twice keystream_block_def)

theorem chacha20Xor_is_keystream_xor_witness:
  "chacha20Xor x86_64 [1, 2, 3] [] [] 1 ! 2 =
   3 XOR block_bytes x86_64 (chacha20Block (load_words x86_64 8 []) 1 (load_words x86_64 3 [])) ! 2"
  using chacha20Xor_is_keystream_xor [of x86_64 "[1, 2, 3]" "[]" "[]" 1] by simp

text \<open>C8: \<open>decryptPayload\<close> accepts a buffer exactly when \<open>encryptPayload\<close> produces it from
  the plaintext returned, under the same key and nonce; encryption succeeds exactly for keys of
  32 and nonces of 12 bytes and throws otherwise.\<close>

theorem decrypt_exactly_encrypt:
  "(decryptPayload H c key nonce = Some p \<longleftrightarrow> encryptPayload H p key nonce = Inr c) \<and>
   ((\<exists>c'. encryptPayload H p key nonce = Inr c' \<and> length c' = length p + TAG_SIZE) \<longleftrightarrow>
      length key = KEY_SIZE \<and> length nonce = NONCE_SIZE) \<and>
   (encryptPayload H p key nonce = Inl InvalidArgument \<longleftrightarrow>
      \<not> (length key = KEY_SIZE \<and> length nonce = NONCE_SIZE))"
  using crypto.unseal_iff [of H c key nonce p]
  by (auto simp: encryptPayload_ok TAG_SIZE_def) (auto simp: encryptPayload_def Let_def split: if_splits)

text \<open>the tag does not bind the nonce: a message sealed under one nonce is accepted under
  every other, so a packet replayed with another sequence number passes authentication.\<close>

theorem nonce_not_authenticated:
  assumes "length nonce = NONCE_SIZE" and "length nonce' = NONCE_SIZE"
  shows "decryptPayload H c key nonce = None \<longleftrightarrow> decryptPayload H c key nonce' = None"
proof (cases "length key = KEY_SIZE \<and> TAG_SIZE \<le> length c")
  case True
  then obtain body tag where "c = body @ tag" "length tag = TAG_SIZE"
    using ciphertext_split by blast
  then show ?thesis using True assms by (simp add: decryptPayload_split)
next
  case False
  then show ?thesis using assms by (auto simp: decryptPayload_None)
qed

theorem nonce_not_authenticated_witness:
  "decryptPayload x86_64 (replicate 20 1) (replicate 32 2) (replicate 12 3) = None \<longleftrightarrow>
   decryptPayload x86_64 (replicate 20 1) (replicate 32 2) (replicate 12 4) = None"
  by (rule nonce_not_authenticated) (simp_all only: length_replicate NONCE_SIZE_def)

text \<open>C40: the multipliers are multiples of four and everything is computed modulo \<open>2 ^ 64\<close>, so
  whatever stands more than 496 bytes before the end of a message does not reach the tag: under
  any key, those blocks can be replaced, removed or added and the message still authenticates.\<close>

theorem early_blocks_not_authenticated:
  assumes "16 dvd length a" and "16 dvd length b" and "496 < length rest" and "length tag = TAG_SIZE"
  shows "decryptPayload H (a @ rest @ tag) key nonce = None \<longleftrightarrow>
         decryptPayload H (b @ rest @ tag) key nonce = None"
proof (cases "length key = KEY_SIZE \<and> length nonce = NONCE_SIZE")
  case True
  have "computePoly1305Mac H (a @ rest) key = computePoly1305Mac H (b @ rest) key"
    using assms by (intro mac_forgets_prefix)
  then show ?thesis
    using True assms(4) decryptPayload_split [of key nonce tag H "a @ rest"]
      decryptPayload_split [of key nonce tag H "b @ rest"] by simp
next
  case False
  then show ?thesis by (auto simp: decryptPayload_None)
qed

theorem early_blocks_not_authenticated_witness:
  "let tag = computePoly1305Mac x86_64 (replicate 16 0 @ replicate 512 7) (replicate 32 2)
   in decryptPayload x86_64 (replicate 32 9 @ replicate 512 7 @ tag) (replicate 32 2) (replicate 12 3) \<noteq> None"
proof -
  let ?tag = "computePoly1305Mac x86_64 (replicate 16 0 @ replicate 512 7) (replicate 32 2)"
  have "decryptPayload x86_64 ((replicate 16 0 @ replicate 512 7) @ ?tag) (replicate 32 2) (replicate 12 3) \<noteq> None"
    by (subst decrypt_accepts_iff) (simp_all only: length_replicate length_computePoly1305Mac crypto_sizes)
  then have "decryptPayload x86_64 (replicate 16 0 @ replicate 512 7 @ ?tag) (replicate 32 2) (replicate 12 3) \<noteq> None"
    by (simp only: append_assoc not_False_eq_True)
  moreover have "16 dvd length (replicate 16 (0 :: byte))" "16 dvd length (replicate 32 (9 :: byte))"
    "496 < length (replicate 512 (7 :: byte))" "length ?tag = TAG_SIZE"
    by (simp_all only: length_replicate length_computePoly1305Mac crypto_sizes) simp_all
  ultimately show ?thesis
    using early_blocks_not_authenticated [of "replicate 16 0" "replicate 32 9" "replicate 512 7" ?tag x86_64
        "replicate 32 2" "replicate 12 3"]
    by (simp only: Let_def) blast
qed

text \<open>single-bit changes pass too: the two top bits of every eighth byte of a ciphertext do
  not reach the tag.\<close>

theorem top_bits_not_authenticated:
  assumes "i + TAG_SIZE < length c" and "i mod 8 = 7" and "take_bit 6 b = take_bit 6 (c ! i)"
  shows "decryptPayload H (c[i := b]) key nonce = None \<longleftrightarrow> decryptPayload H c key nonce = None"
proof (cases "length key = KEY_SIZE \<and> length nonce = NONCE_SIZE")
  case True
  obtain body tag where c: "c = body @ tag" "length tag = TAG_SIZE"
    using assms(1) by (auto intro: ciphertext_split [of c])
  then have i: "i < length body" using assms(1) by simp
  then have "c[i := b] = body[i := b] @ tag" and "c ! i = body ! i"
    using c(1) by (simp_all add: list_update_append nth_append)
  moreover have "computePoly1305Mac H (body[i := b]) key = computePoly1305Mac H body key"
    using assms(2,3) i calculation(2) by (simp add: mac_ignores_top_bits)
  ultimately show ?thesis using True c by (simp add: decryptPayload_split)
next
  case False
  then show ?thesis by (auto simp: decryptPayload_None)
qed

theorem top_bits_not_authenticated_witness:
  "decryptPayload x86_64 ((replicate 24 1)[7 := 0x81]) (replicate 32 2) (replicate 12 3) = None \<longleftrightarrow>
   decryptPayload x86_64 (replicate 24 1) (replicate 32 2) (replicate 12 3) = None"
  by (rule top_bits_not_authenticated) (simp_all add: TAG_SIZE_def)

text \<open>sealing two messages of the same length under one key and nonce reveals their exclusive
  or. The two ends of a session share one fixed key and number their packets independently, so
  the nonces of the two directions coincide.\<close>

theorem keystream_reuse:
  assumes "encryptPayload H p key nonce = Inr c" and "encryptPayload H q key nonce = Inr d"
    and "length p = length q"
  shows "xor_bytes (take (length p) c) (take (length q) d) = xor_bytes p q"
proof -
  have c: "take (length p) c = chacha20Xor H p key nonce 1"
    and d: "take (length q) d = chacha20Xor H q key nonce 1"
    using assms(1,2) by (auto simp: encryptPayload_Inr_iff)

  show ?thesis
    unfolding c d using assms(3)
    by (intro nth_equalityI) (simp_all add: xor_bytes_def chacha20Xor_nth xor_same_key)
qed

theorem keystream_reuse_witness:
  "let c = projr (encryptPayload x86_64 [104, 105] (replicate 32 2) (replicate 12 3));
       d = projr (encryptPayload x86_64 [0, 0] (replicate 32 2) (replicate 12 3))
   in xor_bytes (take 2 c) (take 2 d) = [104, 105]"
proof -
  have "encryptPayload x86_64 p (replicate 32 2) (replicate 12 3) =
      Inr (projr (encryptPayload x86_64 p (replicate 32 2) (replicate 12 3)))" for p
    by (subst (1 2) encryptPayload_ok) (simp_all only: length_replicate crypto_sizes sum.sel)
  from keystream_reuse [OF this [of "[104, 105]"] this [of "[0, 0]"]] show ?thesis
    by (simp only: Let_def list.size) (simp add: xor_bytes_def numeral_2_eq_2)
qed

text \<open>sealing an empty message sends eight bytes of the key in the clear (written here for a
  little-endian host): the tag of no blocks is the pad.\<close>

theorem empty_message_reveals_key:
  assumes "host_endian H = LittleEndian" and "encryptPayload H [] key nonce = Inr c"
  shows "peek c 0 4 = peek key 8 4 \<and> peek c 8 4 = peek key 12 4"
proof -
  have len: "length key = 32" and c: "c = computePoly1305Mac H [] key"
    using assms(2) by (simp_all add: encryptPayload_Inr_iff KEY_SIZE_def)
  have "peek key 8 4 = le_bytes 4 (le_word (peek key 8 4) :: 32 word)"
    and "peek key 12 4 = le_bytes 4 (le_word (peek key 12 4) :: 32 word)"
    using len by (simp_all add: le_bytes_le_word length_peek)
  then show ?thesis
    using assms(1) take_drop_le_bytes_ucast
    by (simp add: c mac_Nil mac_pad_def mem_load_def peek_def)
qed

theorem empty_message_reveals_key_witness:
  "let key = map of_nat [0..<32]
   in peek (projr (encryptPayload x86_64 [] key (replicate 12 0))) 0 4 = [8, 9, 10, 11]"
proof -
  let ?key = "map of_nat [0..<32] :: bytes"
  have "encryptPayload x86_64 [] ?key (replicate 12 0) =
      Inr (projr (encryptPayload x86_64 [] ?key (replicate 12 0)))"
    by (subst (1 2) encryptPayload_ok) (simp_all add: crypto_sizes)
  moreover have "host_endian x86_64 = LittleEndian" by (simp add: x86_64_def)
  moreover have "peek ?key 8 4 = [8, 9, 10, 11]" by (simp add: peek_def upt_rec)
  ultimately show ?thesis using empty_message_reveals_key unfolding Let_def by metis
qed

text \<open>both parties derive the same secret from generated key pairs, and so does anyone who
  sees the two public keys.\<close>

theorem shared_secret_is_public:
  "deriveSharedSecret (privateKey (generateKeyPair e1)) (publicKey (generateKeyPair e2)) =
     deriveSharedSecret (privateKey (generateKeyPair e2)) (publicKey (generateKeyPair e1)) \<and>
   deriveSharedSecret (privateKey (generateKeyPair e1)) (publicKey (generateKeyPair e2)) =
     Inr (map (\<lambda>b. b XOR 0x5A)
            (xor_bytes (publicKey (generateKeyPair e1)) (publicKey (generateKeyPair e2))))"
proof -
  let ?a = "privateKey (generateKeyPair e1)" and ?b = "privateKey (generateKeyPair e2)"
  have len: "length ?a = KEY_SIZE" "length ?b = KEY_SIZE" by (simp_all add: generateKeyPair_keys)
  let ?m = "\<lambda>k. map (\<lambda>b. b XOR k)"
  have sym: "xor_bytes a (?m k b) = xor_bytes b (?m k a)"
    and pub: "xor_bytes a (?m k b) = ?m k (xor_bytes (?m k a) (?m k b))"
    if "length a = length b" for a b and k :: byte
  proof -
    have fold_up: "((x XOR k) XOR (y XOR k)) XOR k = x XOR (y XOR k)" for x y :: byte
      by (rule bit_word_eqI) (auto simp: bit_xor_iff)
    show "xor_bytes a (?m k b) = ?m k (xor_bytes (?m k a) (?m k b))"
      using that
      by (induction rule: list_induct2)
         (simp_all only: xor_bytes_def list.map zip_Cons_Cons prod.case zip_Nil fold_up)
    show "xor_bytes a (?m k b) = xor_bytes b (?m k a)"
      using that by (induction rule: list_induct2) (simp_all add: xor_bytes_def xor.left_commute)
  qed
  show ?thesis
    unfolding generateKeyPair_keys(2)
    using len sym [of ?a ?b "0x5A"] pub [of ?a ?b "0x5A"]
    by (simp only: deriveSharedSecret_xor length_map)
qed

end
