(* ===== verification/Secure_Channel.thy ===== *)
theory Secure_Channel
  imports Packet_Stream Crypto_Engine
begin

text \<open>
  Sealed messages: what both ends do around \<open>CryptoEngine\<close> and \<open>ProtocolCodec\<close> for every message
  (\<open>apps/client/src/SessionClient.cpp\<close>, \<open>apps/agent/src\<close>). The session key is a literal of both
  programs, the nonce is the sequence number in a zeroed 12-byte buffer. The locale
  \<open>secure_stream\<close> joins the interfaces of the codec and of the cipher and shows once that
  sealed messages survive the stream, however it is cut.
\<close>

section \<open>Operations\<close>

definition sessionKey :: bytes where
  "sessionKey =
     [0x01, 0x02, 0x03, 0x04, 0x05, 0x06, 0x07, 0x08,
      0x09, 0x0A, 0x0B, 0x0C, 0x0D, 0x0E, 0x0F, 0x10,
      0x11, 0x12, 0x13, 0x14, 0x15, 0x16, 0x17, 0x18,
      0x19, 0x1A, 0x1B, 0x1C, 0x1D, 0x1E, 0x1F, 0x20]"

definition message_nonce :: "host \<Rightarrow> 64 word \<Rightarrow> bytes" where
  "message_nonce H seq = poke (replicate 12 0) 0 (mem_store H seq)"

definition seal_message ::
    "host \<Rightarrow> bytes \<Rightarrow> PayloadType \<Rightarrow> 64 word \<Rightarrow> 64 word \<Rightarrow> bytes \<Rightarrow> crypto_error + bytes" where
  "seal_message H key type seq ts plaintext =
     (case encryptPayload H plaintext key (message_nonce H seq) of
        Inl e \<Rightarrow> Inl e
      | Inr encryptedPayload \<Rightarrow> Inr (encode H type seq ts encryptedPayload))"

definition open_message :: "host \<Rightarrow> bytes \<Rightarrow> Packet \<Rightarrow> bytes option" where
  "open_message H key packet =
     decryptPayload H (payload packet) key (message_nonce H (sequenceNumber (header packet)))"

lemma length_sessionKey [simp]: "length sessionKey = KEY_SIZE"
  by (simp add: sessionKey_def KEY_SIZE_def)

lemma length_message_nonce [simp]: "length (message_nonce H seq) = NONCE_SIZE"
  by (simp add: message_nonce_def poke_def NONCE_SIZE_def del: replicate.simps replicate_Suc)

lemma mem_load_store_64: "mem_load H (mem_store H w) = (w :: 64 word)"
  by simp

lemma message_nonce_inj: "message_nonce H a = message_nonce H b \<longleftrightarrow> a = b"
proof -
  have "take 8 (message_nonce H s) = mem_store H s" for s
    by (simp add: message_nonce_def poke_def)
  then show ?thesis by (metis mem_load_store_64)
qed

lemma seal_message_ok:
  "length key = KEY_SIZE \<Longrightarrow>
   \<exists>c. encryptPayload H plain key (message_nonce H seq) = Inr c \<and> length c = length plain + TAG_SIZE \<and>
       seal_message H key type seq ts plain = Inr (encode H type seq ts c)"
  by (simp add: seal_message_def encryptPayload_ok TAG_SIZE_def)

section \<open>Sealed messages over a stream\<close>

locale secure_stream =
  framed_codec dec waits span hdr + sealed_box seal unseal usable overhead
  for dec :: "bytes \<Rightarrow> 'r + 'p" and waits span hdr
    and seal :: "bytes \<Rightarrow> bytes \<Rightarrow> bytes \<Rightarrow> 'e + bytes" and unseal usable overhead +
  fixes frame :: "'m \<Rightarrow> bytes \<Rightarrow> bytes"
    and meta :: "'p \<Rightarrow> 'm"
    and body :: "'p \<Rightarrow> bytes"
    and nonce :: "'m \<Rightarrow> bytes"
    and valid :: "'m \<Rightarrow> bool"
    and limit :: nat
  assumes frame_dec:
    "valid m \<Longrightarrow> length b < limit \<Longrightarrow>
     \<exists>p. dec (frame m b @ rest) = Inr p \<and> meta p = m \<and> body p = b \<and> span p = length (frame m b)"
begin

definition wire :: "bytes \<Rightarrow> 'm \<times> bytes \<Rightarrow> bytes" where
  "wire key x = (case seal (snd x) key (nonce (fst x)) of Inl _ \<Rightarrow> [] | Inr c \<Rightarrow> frame (fst x) c)"

definition reading :: "bytes \<Rightarrow> 'p \<Rightarrow> 'm \<times> bytes option" where
  "reading key p = (meta p, unseal (body p) key (nonce (meta p)))"

definition sendable :: "bytes \<Rightarrow> 'm \<times> bytes \<Rightarrow> bool" where
  "sendable key x \<longleftrightarrow> valid (fst x) \<and> usable key (nonce (fst x)) \<and> length (snd x) + overhead < limit"

lemma wire_dec:
  assumes "sendable key x"
  shows "\<exists>p. dec (wire key x @ rest) = Inr p \<and> reading key p = (fst x, Some (snd x)) \<and>
             span p = length (wire key x)"
proof -
  obtain c where c: "seal (snd x) key (nonce (fst x)) = Inr c"
      "unseal c key (nonce (fst x)) = Some (snd x)" "length c = length (snd x) + overhead"
    using assms seal_obtain unfolding sendable_def by metis
  then obtain p where "dec (frame (fst x) c @ rest) = Inr p" "meta p = fst x" "body p = c"
      "span p = length (frame (fst x) c)"
    using assms frame_dec [of "fst x" c rest] by (auto simp: sendable_def)
  then show ?thesis using c by (auto simp: wire_def reading_def)
qed

lemma scan_wire:
  assumes "list_all (sendable key) xs"
  shows "\<exists>ps. scan dec waits span hdr (concat (map (wire key) xs)) = (ps, []) \<and>
              map (reading key) ps = map (\<lambda>x. (fst x, Some (snd x))) xs"
  using assms
proof (induction xs)
  case Nil
  then show ?case using scan_short [of "[]"] hdr_pos by simp
next
  case (Cons x xs)
  then obtain ps where ps: "scan dec waits span hdr (concat (map (wire key) xs)) = (ps, [])"
      "map (reading key) ps = map (\<lambda>x. (fst x, Some (snd x))) xs" by auto
  obtain p where "dec (wire key x @ concat (map (wire key) xs)) = Inr p"
      "reading key p = (fst x, Some (snd x))" "span p = length (wire key x)"
    using wire_dec [of key x] Cons.prems by auto
  then show ?case using ps by (simp add: scan_packet deliver_def)
qed

lemma pieces_wire:
  assumes "list_all (sendable key) xs" and "concat cs = concat (map (wire key) xs)"
  shows "\<exists>ps. foldl (\<lambda>x c. deliver (fst x) (scan dec waits span hdr (snd x @ c))) ([], []) cs = (ps, []) \<and>
              map (reading key) ps = map (\<lambda>x. (fst x, Some (snd x))) xs"
  using scan_wire [OF assms(1)] by (simp add: scan_pieces assms(2))

end

type_synonym message_meta = "PayloadType \<times> 64 word \<times> 64 word"

definition packet_meta :: "Packet \<Rightarrow> message_meta" where
  "packet_meta p = (ptype (header p), sequenceNumber (header p), timestampMs (header p))"

interpretation channel: secure_stream "decode H" is_incomplete packet_span HEADER_SIZE
  "encryptPayload H" "decryptPayload H"
  "\<lambda>key nonce. length key = KEY_SIZE \<and> length nonce = NONCE_SIZE" TAG_SIZE
  "\<lambda>(type, seq, ts) c. encode H type seq ts c" packet_meta payload
  "\<lambda>(type, seq, ts). message_nonce H seq" "\<lambda>(type, seq, ts). wf_payload_type type" "2 ^ 32" for H
proof (unfold_locales, goal_cases)
  case (1 m b rest)
  then show ?case
    by (cases m)
       (simp add: decode_of_encode length_encode packet_meta_def packet_span_def unat_of_nat)
qed

lemma channel_reading: "channel.reading H key = (\<lambda>p. (packet_meta p, open_message H key p))"
  by (rule ext) (simp add: channel.reading_def open_message_def packet_meta_def)

lemma channel_sendable:
  "channel.sendable H key ((type, seq, ts), plain) \<longleftrightarrow>
     wf_payload_type type \<and> length key = KEY_SIZE \<and> length plain + TAG_SIZE < 2 ^ 32"
  unfolding channel.sendable_def by simp

lemma channel_wire:
  "length key = KEY_SIZE \<Longrightarrow>
   seal_message H key type seq ts plain = Inr (channel.wire H key ((type, seq, ts), plain))"
  by (simp add: seal_message_def channel.wire_def encryptPayload_ok)

lemma open_seal:
  assumes "seal_message H key type seq ts plain = Inr w" and "wf_payload_type type"
    and "length plain + TAG_SIZE < 2 ^ 32"
  shows "\<exists>p. decode H (w @ rest) = Inr p \<and> packet_meta p = (type, seq, ts) \<and>
             open_message H key p = Some plain \<and> packet_span p = length w \<and>
             length (payload p) = length plain + TAG_SIZE"
proof -
  obtain c where c: "encryptPayload H plain key (message_nonce H seq) = Inr c"
    and w: "w = encode H type seq ts c"
    using assms(1) by (auto simp: seal_message_def split: sum.splits)
  have len: "length c = length plain + TAG_SIZE" by (rule length_encryptPayload [OF c])
  then have short: "length c < 2 ^ 32" using assms(3) by simp
  show ?thesis
    using decode_of_encode [OF assms(2) short, of H seq ts rest] size32_exact [OF short]
      length_encode [OF short] decrypt_iff_encrypt [THEN iffD2, OF c]
    by (auto simp: w packet_meta_def open_message_def packet_span_def len [symmetric]
        simp del: of_nat_add)
qed

section \<open>Properties\<close>

text \<open>
  C7: Sealed messages of any listed types, each shorter than 2^32 bytes sealed, written one after
  the other, reach the other end intact and in order however TCP cuts the stream: the packets
  found piece by piece carry the types, sequence numbers and timestamps sent, open to exactly
  the plaintexts sent, and nothing is left over.
\<close>

theorem sealed_stream_delivered:
  assumes "length key = KEY_SIZE"
    and "\<And>type seq ts plain. ((type, seq, ts), plain) \<in> set msgs \<Longrightarrow>
           wf_payload_type type \<and> length plain + TAG_SIZE < 2 ^ 32"
    and "map (\<lambda>((type, seq, ts), plain). seal_message H key type seq ts plain) msgs = map Inr wires"
    and "concat pieces = concat wires"
  shows "\<exists>ps. foldl (\<lambda>x c. deliver (fst x) (rap_scan H (snd x @ c))) ([], []) pieces = (ps, []) \<and>
           map (\<lambda>p. (packet_meta p, open_message H key p)) ps = map (\<lambda>(m, plain). (m, Some plain)) msgs"
proof -
  have "list_all (channel.sendable H key) msgs"
  proof (unfold list_all_iff, intro ballI)
    fix x assume x: "x \<in> set msgs"
    obtain type seq ts plain where eq: "x = ((type, seq, ts), plain)" by (metis prod.collapse)
    show "channel.sendable H key x"
      using assms(1) assms(2) [OF x [unfolded eq]] by (simp only: eq channel_sendable)
  qed
  moreover have "map (channel.wire H key) msgs = wires"
    using assms(1,3)
  proof (induction msgs arbitrary: wires)
    case (Cons x xs)
    then show ?case by (cases x) (auto simp: channel_wire)
  qed simp
  ultimately show ?thesis
    using channel.pieces_wire [of H key msgs pieces, unfolded channel_reading] assms(4)
    by (simp only: case_prod_beta' split_def)
qed

theorem sealed_stream_delivered_witness:
  "\<exists>w. seal_message x86_64 sessionKey Heartbeat 1 2 [7] = Inr w \<and>
     (\<exists>ps. foldl (\<lambda>x c. deliver (fst x) (rap_scan x86_64 (snd x @ c))) ([], [])
             [take 5 w, drop 5 w] = (ps, []) \<and>
           map (\<lambda>p. (packet_meta p, open_message x86_64 sessionKey p)) ps =
             [((Heartbeat, 1, 2), Some [7])])"
proof -
  obtain w where "seal_message x86_64 sessionKey Heartbeat 1 2 [7] = Inr w"
    using seal_message_ok [of sessionKey x86_64 "[7]" 1 Heartbeat 2] by auto
  then show ?thesis
    using sealed_stream_delivered [of sessionKey "[((Heartbeat, 1, 2), [7])]" x86_64 "[w]"
        "[take 5 w, drop 5 w]"]
    by (simp add: TAG_SIZE_def)
qed

text \<open>
  A message opens only under the sequence number and key it was sealed with as far as the
  nonce goes: two sequence numbers never share a nonce, and opening gives a plaintext exactly
  when sealing that plaintext gives the packet's payload.
\<close>

theorem message_nonce_unique:
  "(message_nonce H a = message_nonce H b \<longleftrightarrow> a = b) \<and>
   (open_message H key p = Some plain \<longleftrightarrow>
      encryptPayload H plain key (message_nonce H (sequenceNumber (header p))) = Inr (payload p))"
  by (simp add: message_nonce_inj open_message_def decrypt_iff_encrypt)

end
