(* ===== verification/Input_Backend.thy ===== *)
theory Input_Backend
  imports Prelude "HOL-Library.Signed_Division"
begin

text \<open>
  Input injection (\<open>libs/input\<close>): the events, the X11 backend, the Windows backend and the stub
  that every platform other than Linux gets from the factory. A backend's effect is the list of
  calls it makes to the platform; \<open>input_backend\<close> states what the agent relies on, and every
  backend is an interpretation of it.
\<close>

section \<open>Events\<close>

text \<open>A 16-bit type from the wire is cast to the enumeration without a check, so values without
  an enumerator occur; they are kept.\<close>

datatype InputEventType =
  Unknown | MouseMove | MouseDown | MouseUp | MouseWheel | KeyDown | KeyUp | UnlistedEvent "16 word"

fun event_type_value :: "InputEventType \<Rightarrow> 16 word" where
  "event_type_value Unknown = 0"
| "event_type_value MouseMove = 1"
| "event_type_value MouseDown = 2"
| "event_type_value MouseUp = 3"
| "event_type_value MouseWheel = 4"
| "event_type_value KeyDown = 5"
| "event_type_value KeyUp = 6"
| "event_type_value (UnlistedEvent w) = w"

definition event_type_cast :: "16 word \<Rightarrow> InputEventType" where
  "event_type_cast w =
     (case map_of [(0, Unknown), (1, MouseMove), (2, MouseDown), (3, MouseUp), (4, MouseWheel),
                   (5, KeyDown), (6, KeyUp)] w of Some t \<Rightarrow> t | None \<Rightarrow> UnlistedEvent w)"

record InputEvent =
  ev_type :: InputEventType
  ev_x :: "32 word"
  ev_y :: "32 word"
  ev_button :: "32 word"
  ev_delta :: "32 word"
  ev_keycode :: "32 word"
  ev_modifiers :: "32 word"

lemma event_type_value_cast [simp]: "event_type_value (event_type_cast w) = w"
  by (simp add: event_type_cast_def)

lemma event_type_cast_listed:
  "(\<forall>w. t \<noteq> UnlistedEvent w) \<Longrightarrow> event_type_cast (event_type_value t) = t"
  by (cases t) (simp_all add: event_type_cast_def)

section \<open>X11\<close>

text \<open>The requests of the XTest extension, and what the process finds around it.\<close>

datatype x_request =
    FakeMotion "32 word" "32 word"
  | FakeButton "32 word" bool
  | FakeKey "32 word" bool
  | XFlush

record x_env =
  display_opens :: bool
  xtest_extension :: bool
  RAP_DISABLE_X11_INJECTION :: bool
  RAP_TEST_MODE :: bool

record LinuxX11Input =
  x_display :: bool
  xtestSupported :: bool

definition x11_new :: LinuxX11Input where
  "x11_new = \<lparr>x_display = False, xtestSupported = False\<rparr>"

definition x11_initialize :: "x_env \<Rightarrow> LinuxX11Input \<Rightarrow> bool \<times> LinuxX11Input" where
  "x11_initialize env b =
     (let b = b\<lparr>x_display := display_opens env\<rparr>
      in (True, if x_display b then b\<lparr>xtestSupported := xtest_extension env\<rparr> else b))"

definition x11_delete :: "LinuxX11Input \<Rightarrow> LinuxX11Input" where
  "x11_delete b = (if x_display b then b\<lparr>x_display := False\<rparr> else b)"

definition x11_injectEvent :: "x_env \<Rightarrow> LinuxX11Input \<Rightarrow> InputEvent \<Rightarrow> bool \<times> x_request list" where
  "x11_injectEvent env b event =
     (if RAP_DISABLE_X11_INJECTION env \<or> RAP_TEST_MODE env then (True, [])
      else if x_display b \<and> xtestSupported b then
        (case ev_type event of
           MouseMove \<Rightarrow> (True, [FakeMotion (ev_x event) (ev_y event), XFlush])
         | MouseDown \<Rightarrow> (True, [FakeMotion (ev_x event) (ev_y event),
                              FakeButton (ev_button event) True, XFlush])
         | MouseUp \<Rightarrow> (True, [FakeButton (ev_button event) False, XFlush])
         | MouseWheel \<Rightarrow>
             (let btn = (if 0 <s ev_delta event then 4 else 5)
              in (True, [FakeButton btn True, FakeButton btn False, XFlush]))
         | KeyDown \<Rightarrow> (True, if 0 < ev_keycode event
                            then [FakeKey (ev_keycode event) True, XFlush] else [])
         | KeyUp \<Rightarrow> (True, if 0 < ev_keycode event
                          then [FakeKey (ev_keycode event) False, XFlush] else [])
         | _ \<Rightarrow> (True, []))
      else (True, []))"

section \<open>Windows\<close>

text \<open>
  \<open>SendInput\<close> with a mouse or keyboard record. The coordinate arithmetic is signed: a product
  outside 32 bits and a division by a zero screen size are undefined in C++, the value
  \<open>None\<close> here.
\<close>

datatype win_input =
    MouseInput int int "32 word" string
  | KeyInput "16 word" bool

record win_env =
  is_win32 :: bool
  SM_CXSCREEN :: int
  SM_CYSCREEN :: int

definition int_mult :: "int \<Rightarrow> int \<Rightarrow> int option" where
  "int_mult a b = (if - (2 ^ 31) \<le> a * b \<and> a * b < 2 ^ 31 then Some (a * b) else None)"

definition scale_axis :: "32 word \<Rightarrow> int \<Rightarrow> int option" where
  "scale_axis x metric =
     (case int_mult (sint x) 65535 of
        None \<Rightarrow> None
      | Some p \<Rightarrow> if metric = 0 then None else Some (p sdiv metric))"

definition win_initialize :: bool where "win_initialize = True"

definition win_injectEvent :: "win_env \<Rightarrow> InputEvent \<Rightarrow> (bool \<times> win_input list) option" where
  "win_injectEvent env event =
     (if \<not> is_win32 env then Some (True, [])
      else case ev_type event of
        MouseMove \<Rightarrow>
          (case scale_axis (ev_x event) (SM_CXSCREEN env) of
             None \<Rightarrow> None
           | Some dx \<Rightarrow>
               (case scale_axis (ev_y event) (SM_CYSCREEN env) of
                  None \<Rightarrow> None
                | Some dy \<Rightarrow> Some (True, [MouseInput dx dy 0 ''ABSOLUTE|MOVE''])))
      | MouseDown \<Rightarrow>
          Some (True, [MouseInput 0 0 0 (if ev_button event = 1 then ''LEFTDOWN''
                        else if ev_button event = 3 then ''RIGHTDOWN'' else ''MIDDLEDOWN'')])
      | MouseUp \<Rightarrow>
          Some (True, [MouseInput 0 0 0 (if ev_button event = 1 then ''LEFTUP''
                        else if ev_button event = 3 then ''RIGHTUP'' else ''MIDDLEUP'')])
      | MouseWheel \<Rightarrow> Some (True, [MouseInput 0 0 (ev_delta event) ''WHEEL''])
      | KeyDown \<Rightarrow> Some (True, [KeyInput (ucast (ev_keycode event)) False])
      | KeyUp \<Rightarrow> Some (True, [KeyInput (ucast (ev_keycode event)) True])
      | _ \<Rightarrow> Some (True, []))"

section \<open>The stub and the factory\<close>

definition dummy_initialize :: bool where "dummy_initialize = True"

definition dummy_injectEvent :: "InputEvent \<Rightarrow> bool" where "dummy_injectEvent event = True"

datatype input_backend_kind = X11Input LinuxX11Input | CrossPlatformDummyInput

definition createDefaultInputBackend :: "bool \<Rightarrow> input_backend_kind" where
  "createDefaultInputBackend linux = (if linux then X11Input x11_new else CrossPlatformDummyInput)"

section \<open>What the agent relies on\<close>

text \<open>An event is handled with the answer "true" whenever the arithmetic on it is defined, and
  events of no listed kind reach the platform as nothing.\<close>

locale input_backend =
  fixes inject :: "InputEvent \<Rightarrow> (bool \<times> 'c list) option"
    and sane :: "InputEvent \<Rightarrow> bool"
  assumes inject_sane: "sane e \<Longrightarrow> \<exists>cs. inject e = Some (True, cs)"
    and inject_unlisted: "ev_type e = Unknown \<or> ev_type e = UnlistedEvent w \<Longrightarrow> inject e = Some (True, [])"
begin

definition requests :: "InputEvent list \<Rightarrow> 'c list" where
  "requests es = concat (map (\<lambda>e. snd (the (inject e))) es)"

lemma requests_Nil [simp]: "requests [] = []"
  by (simp add: requests_def)

lemma requests_snoc: "requests (es @ [e]) = requests es @ snd (the (inject e))"
  by (simp add: requests_def)

lemma requests_append: "requests (es @ fs) = requests es @ requests fs"
  by (simp add: requests_def)

lemma requests_unlisted:
  "(\<And>e. e \<in> set es \<Longrightarrow> ev_type e = Unknown) \<Longrightarrow> requests es = []"
  by (induction es) (simp_all add: requests_def inject_unlisted)

lemma answers_true: "\<forall>e \<in> set es. sane e \<Longrightarrow> map (\<lambda>e. fst (the (inject e))) es = replicate (length es) True"
  by (induction es) (use inject_sane in force)+

end

lemma x11_answers: "fst (x11_injectEvent env b e) = True"
  by (simp add: x11_injectEvent_def Let_def split: InputEventType.split)

interpretation x11: input_backend "\<lambda>e. Some (x11_injectEvent env b e)" "\<lambda>e. True" for env b
proof (unfold_locales)
  fix e show "\<exists>cs. Some (x11_injectEvent env b e) = Some (True, cs)"
    using x11_answers [of env b e] by (metis prod.collapse)
next
  fix e w
  show "ev_type e = Unknown \<or> ev_type e = UnlistedEvent w \<Longrightarrow>
        Some (x11_injectEvent env b e) = Some (True, [])"
    by (auto simp: x11_injectEvent_def)
qed

definition win_sane :: "win_env \<Rightarrow> InputEvent \<Rightarrow> bool" where
  "win_sane env e \<longleftrightarrow>
     (is_win32 env \<and> ev_type e = MouseMove \<longrightarrow>
        scale_axis (ev_x e) (SM_CXSCREEN env) \<noteq> None \<and> scale_axis (ev_y e) (SM_CYSCREEN env) \<noteq> None)"

interpretation win: input_backend "win_injectEvent env" "win_sane env" for env
  by unfold_locales
     (auto simp: win_injectEvent_def win_sane_def split: InputEventType.splits option.splits)

interpretation stub: input_backend "\<lambda>e. Some (dummy_injectEvent e, [] :: unit list)" "\<lambda>e. True"
  by unfold_locales (simp_all add: dummy_injectEvent_def)

section \<open>Buttons held down\<close>

text \<open>What the server holds down after a sequence of requests, and what the events ask for.\<close>

fun button_step :: "x_request \<Rightarrow> 32 word set \<Rightarrow> 32 word set" where
  "button_step (FakeButton b True) held = insert b held"
| "button_step (FakeButton b False) held = held - {b}"
| "button_step _ held = held"

definition event_buttons :: "InputEvent \<Rightarrow> 32 word set \<Rightarrow> 32 word set" where
  "event_buttons e held =
     (case ev_type e of
        MouseDown \<Rightarrow> insert (ev_button e) held
      | MouseUp \<Rightarrow> held - {ev_button e}
      | MouseWheel \<Rightarrow> held - {if 0 <s ev_delta e then 4 else 5}
      | _ \<Rightarrow> held)"

definition injecting :: "x_env \<Rightarrow> LinuxX11Input \<Rightarrow> bool" where
  "injecting env b \<longleftrightarrow>
     \<not> RAP_DISABLE_X11_INJECTION env \<and> \<not> RAP_TEST_MODE env \<and> x_display b \<and> xtestSupported b"

lemma x11_event_buttons:
  "injecting env b \<Longrightarrow> fold button_step (snd (x11_injectEvent env b e)) held = event_buttons e held"
  by (simp add: x11_injectEvent_def injecting_def event_buttons_def Let_def split: InputEventType.split)

lemma x11_idle: "\<not> injecting env b \<Longrightarrow> x11_injectEvent env b e = (True, [])"
  by (auto simp: x11_injectEvent_def injecting_def)

lemma scale_axis_defined:
  "scale_axis x m \<noteq> None \<longleftrightarrow> m \<noteq> 0 \<and> - 32768 \<le> sint x \<and> sint x \<le> 32768"
  by (auto simp: scale_axis_def int_mult_def)

lemma scale_axis_in_screen:
  assumes "0 \<le> sint x" and "sint x < m" and "m \<le> 32768"
  shows "scale_axis x m = Some (sint x * 65535 div m)"
proof -
  have "0 \<le> sint x * 65535" and "sint x * 65535 < 2 ^ 31" and "0 < m" using assms by auto
  then show ?thesis
    by (cases "sint x = 0") (simp_all add: scale_axis_def int_mult_def signed_divide_int_def sgn_mult)
qed

section \<open>Properties\<close>


definition demo_x_env :: x_env where
  "demo_x_env = \<lparr>display_opens = True, xtest_extension = True, RAP_DISABLE_X11_INJECTION = False,
                 RAP_TEST_MODE = False\<rparr>"


text \<open>
  C39: The Windows backend's mouse move is undefined exactly for coordinates whose product with
  65535 leaves 32 bits (beyond 32768 either way) or a screen of size 0; inside a screen of at
  most 32768 pixels it is defined and lands on SendInput's absolute range 0 to 65535.
\<close>

theorem scale_axis_range:
  "(scale_axis x m \<noteq> None \<longleftrightarrow> m \<noteq> 0 \<and> - 32768 \<le> sint x \<and> sint x \<le> 32768) \<and>
   (0 \<le> sint x \<and> sint x < m \<and> m \<le> 32768 \<longrightarrow>
      (\<exists>d. scale_axis x m = Some d \<and> 0 \<le> d \<and> d < 65536))"
proof -
  have "sint x * 65535 div m < 65536" if "0 \<le> sint x" "sint x < m"
  proof -
    have "sint x * 65535 \<le> m * 65535" using that by simp
    then have "sint x * 65535 div m \<le> m * 65535 div m" using that by (intro zdiv_mono1) auto
    then show ?thesis using that by simp
  qed
  then show ?thesis
    using scale_axis_defined [of x m] scale_axis_in_screen [of x m]
    by (auto simp: pos_imp_zdiv_nonneg_iff)
qed

theorem scale_axis_range_witness: "\<exists>d. scale_axis 1919 1920 = Some d \<and> 0 \<le> d \<and> d < 65536"
  using scale_axis_range [of 1919 1920] by simp

end
