(* ===== verification/Qt_Text.thy ===== *)
theory Qt_Text
  imports Prelude "HOL-Library.Sublist"
begin

text \<open>
  What the programs use of Qt: text (\<open>QString\<close>, UTF-16 units), and the compression of frames. Qt is
  not part of the repository, so its operations are the fields of a record the models take as an
  argument; \<open>plain_text\<close> is an instance for ASCII text, used to evaluate examples.
\<close>

type_synonym QString = "16 word list"

definition qstr :: "string \<Rightarrow> QString" where
  "qstr s = map of_char s"

record qt =
  fromUtf8 :: "bytes \<Rightarrow> QString"
  toUtf8 :: "QString \<Rightarrow> bytes"
  trimmed :: "QString \<Rightarrow> QString"
  remove_char :: "16 word \<Rightarrow> QString \<Rightarrow> QString"
  contains :: "QString \<Rightarrow> QString \<Rightarrow> bool"
  startsWith :: "QString \<Rightarrow> QString \<Rightarrow> bool"
  mid :: "QString \<Rightarrow> nat \<Rightarrow> QString"
  toLatin1 :: "QString \<Rightarrow> bytes"
  fromHex :: "bytes \<Rightarrow> bytes"
  qCompress :: "bytes \<Rightarrow> bytes"
  qUncompress :: "bytes \<Rightarrow> bytes"

definition is_blank :: "16 word \<Rightarrow> bool" where
  "is_blank c \<longleftrightarrow> c \<in> {9, 10, 11, 12, 13, 32}"

definition plain_text :: qt where
  "plain_text =
     \<lparr>fromUtf8 = map ucast, toUtf8 = map ucast,
      trimmed = (\<lambda>s. rev (dropWhile is_blank (rev (dropWhile is_blank s)))),
      remove_char = (\<lambda>c. filter (\<lambda>d. d \<noteq> c)),
      contains = (\<lambda>s t. sublist t s),
      startsWith = (\<lambda>s t. take (length t) s = t),
      mid = (\<lambda>s n. drop n s), toLatin1 = map ucast, fromHex = (\<lambda>b. b),
      qCompress = (\<lambda>b. 0 # b),
      qUncompress = tl\<rparr>"

section \<open>What the programs rely on\<close>

text \<open>Qt's documented behaviour on the texts the programs make themselves, which are ASCII: UTF-8 is
  one byte per unit, trimming leaves a text without blank ends alone, and removing a character
  keeps the others in order. \<open>plain_text\<close> meets it.\<close>

definition ascii_text :: "QString \<Rightarrow> bool" where
  "ascii_text s \<longleftrightarrow> list_all (\<lambda>c. c < 128) s"

definition qt_text :: "qt \<Rightarrow> bool" where
  "qt_text Q \<longleftrightarrow>
     (\<forall>s. ascii_text s \<longrightarrow> toUtf8 Q s = map ucast s \<and> fromUtf8 Q (map ucast s) = s) \<and>
     (\<forall>s. s \<noteq> [] \<and> \<not> is_blank (hd s) \<and> \<not> is_blank (last s) \<longrightarrow> trimmed Q s = s) \<and>
     (\<forall>c s. remove_char Q c s = filter (\<lambda>d. d \<noteq> c) s)"

lemma utf8_round_trip: "qt_text Q \<Longrightarrow> ascii_text s \<Longrightarrow> fromUtf8 Q (toUtf8 Q s) = s"
  by (simp add: qt_text_def)

lemma removed_blanks: "qt_text Q \<Longrightarrow> remove_char Q c s = filter (\<lambda>d. d \<noteq> c) s"
  by (simp add: qt_text_def)

lemma cleaned:
  assumes "qt_text Q" and "ascii_text s" and "s \<noteq> []" and "\<not> is_blank (hd s)" and "\<not> is_blank (last s)"
  shows "remove_char Q 32 (trimmed Q (fromUtf8 Q (toUtf8 Q s))) = filter (\<lambda>d. d \<noteq> 32) s"
  using assms utf8_round_trip [OF assms(1,2)] by (simp add: qt_text_def)

lemma ucast_ascii: "c < 128 \<Longrightarrow> (ucast (ucast c :: byte) :: 16 word) = c"
  by (simp add: word_unat_eq_iff word_less_nat_alt unsigned_ucast_eq take_bit_eq_mod unat_mod_distrib)

lemma plain_from_utf8: "ascii_text s \<Longrightarrow> map (ucast :: byte \<Rightarrow> 16 word) (map ucast s) = s"
  by (induction s) (simp_all add: ascii_text_def ucast_ascii)

lemma plain_trim:
  "s \<noteq> [] \<Longrightarrow> \<not> is_blank (hd s) \<Longrightarrow> \<not> is_blank (last s) \<Longrightarrow> trimmed plain_text s = s"
  by (simp add: plain_text_def dropWhile_eq_self_iff [THEN iffD2] hd_rev)

lemma plain_qt_text: "qt_text plain_text"
  using plain_from_utf8 plain_trim by (simp add: qt_text_def) (simp add: plain_text_def)

end
