(* ===== verification/Frame_Analysis.thy ===== *)
theory Frame_Analysis
  imports Prelude Complex_Main
begin

text \<open>
  The pure computations of \<open>libs/capture\<close>: the dirty region of two frames
  (\<open>DirtyRegionDetector.cpp\<close>), the shield painted over the viewer's own window
  (\<open>MirrorShield.cpp\<close>) and the bitrate controller (\<open>AdaptiveBitrateController.cpp\<close>).
  Frames are byte lists, null pointers \<open>None\<close>; \<open>int\<close> values are unbounded integers, so the
  statements are about sizes whose products fit the C++ \<open>int\<close>.
\<close>

section \<open>Dirty region\<close>

record DirtyRect =
  dirty_x :: int
  dirty_y :: int
  dirty_width :: int
  dirty_height :: int
  isDirty :: bool

definition clean_rect :: DirtyRect where
  "clean_rect = \<lparr>dirty_x = 0, dirty_y = 0, dirty_width = 0, dirty_height = 0, isDirty = False\<rparr>"

definition row_differs :: "bytes \<Rightarrow> bytes \<Rightarrow> nat \<Rightarrow> nat \<Rightarrow> bool" where
  "row_differs prev cur stride y \<longleftrightarrow> peek prev (y * stride) stride \<noteq> peek cur (y * stride) stride"

definition pixel_differs :: "bytes \<Rightarrow> bytes \<Rightarrow> nat \<Rightarrow> nat \<Rightarrow> nat \<Rightarrow> nat \<Rightarrow> bool" where
  "pixel_differs prev cur stride bpp y x \<longleftrightarrow>
     peek prev (y * stride + x * bpp) bpp \<noteq> peek cur (y * stride + x * bpp) bpp"

definition scan_columns ::
    "bytes \<Rightarrow> bytes \<Rightarrow> nat \<Rightarrow> nat \<Rightarrow> nat \<Rightarrow> nat \<Rightarrow> int \<times> int \<Rightarrow> int \<times> int" where
  "scan_columns prev cur stride bpp width y =
     fold (\<lambda>x (minX, maxX).
             if pixel_differs prev cur stride bpp y x
             then (min minX (int x), max maxX (int x + 1)) else (minX, maxX)) [0..<width]"

definition scan_rows ::
    "bytes \<Rightarrow> bytes \<Rightarrow> nat \<Rightarrow> nat \<Rightarrow> nat \<Rightarrow> nat \<Rightarrow> int \<times> int \<times> int \<times> int \<Rightarrow> int \<times> int \<times> int \<times> int" where
  "scan_rows prev cur stride bpp width height =
     fold (\<lambda>y (minX, minY, maxX, maxY).
             if row_differs prev cur stride y
             then (case scan_columns prev cur stride bpp width y (minX, maxX) of
                     (minX', maxX') \<Rightarrow> (minX', min minY (int y), maxX', max maxY (int y + 1)))
             else (minX, minY, maxX, maxY)) [0..<height]"

definition detectDirtyRegion ::
    "bytes option \<Rightarrow> bytes option \<Rightarrow> int \<Rightarrow> int \<Rightarrow> nat \<Rightarrow> DirtyRect" where
  "detectDirtyRegion prevFrame currFrame width height bytesPerPixel =
     (case currFrame of
        None \<Rightarrow> clean_rect
      | Some cur \<Rightarrow>
          if width \<le> 0 \<or> height \<le> 0 then clean_rect
          else case prevFrame of
            None \<Rightarrow> \<lparr>dirty_x = 0, dirty_y = 0, dirty_width = width, dirty_height = height, isDirty = True\<rparr>
          | Some prev \<Rightarrow>
              (case scan_rows prev cur (nat width * bytesPerPixel) bytesPerPixel (nat width)
                      (nat height) (width, height, - 1, - 1) of
                 (minX, minY, maxX, maxY) \<Rightarrow>
                   if minX \<le> maxX \<and> minY \<le> maxY
                   then \<lparr>dirty_x = minX, dirty_y = minY, dirty_width = min (width - minX) (maxX - minX),
                         dirty_height = min (height - minY) (maxY - minY), isDirty = True\<rparr>
                   else clean_rect))"

section \<open>Mirror shield\<close>

record WindowBounds =
  bounds_x :: int
  bounds_y :: int
  bounds_width :: int
  bounds_height :: int
  isActive :: bool

definition paint_pixel :: "nat \<Rightarrow> nat \<Rightarrow> bytes \<Rightarrow> bytes" where
  "paint_pixel bpp offset row =
     (let row = row[offset := 0x1e, offset + 1 := 0x1e, offset + 2 := 0x2e]
      in if bpp = 4 then row[offset + 3 := 0xff] else row)"

definition applyMirrorShield ::
    "bytes option \<Rightarrow> int \<Rightarrow> int \<Rightarrow> WindowBounds \<Rightarrow> nat \<Rightarrow> bool \<times> bytes option" where
  "applyMirrorShield frameBuffer frameWidth frameHeight clientBounds bytesPerPixel =
     (case frameBuffer of
        None \<Rightarrow> (False, None)
      | Some buf \<Rightarrow>
          if frameWidth \<le> 0 \<or> frameHeight \<le> 0 \<or> \<not> isActive clientBounds then (False, Some buf)
          else
            let startX = max 0 (bounds_x clientBounds);
                startY = max 0 (bounds_y clientBounds);
                endX = min frameWidth (bounds_x clientBounds + bounds_width clientBounds);
                endY = min frameHeight (bounds_y clientBounds + bounds_height clientBounds)
            in if startX \<ge> endX \<or> startY \<ge> endY then (False, Some buf)
               else
                 let stride = nat frameWidth * bytesPerPixel
                 in (True, Some (fold (\<lambda>y. fold (\<lambda>x. paint_pixel bytesPerPixel (y * stride + x * bytesPerPixel))
                                             [nat startX..<nat endX])
                                   [nat startY..<nat endY] buf)))"

section \<open>Bitrate controller\<close>

text \<open>The loss rate is a \<open>float\<close>: its value as a real, or \<open>None\<close> when it is not a number; the
  two thresholds are the single-precision values nearest 0.05 and 0.01.\<close>

record CodecSettings =
  targetBitrateKbps :: "32 word"
  targetFps :: "32 word"
  enableHardwareAcceleration :: bool

definition loss_exceeds :: "real option \<Rightarrow> real \<Rightarrow> bool" where
  "loss_exceeds loss limit = (case loss of None \<Rightarrow> False | Some r \<Rightarrow> r > limit)"

definition AdaptiveBitrateController :: "32 word \<Rightarrow> 32 word \<Rightarrow> CodecSettings" where
  "AdaptiveBitrateController initialBitrateKbps initialFps =
     \<lparr>targetBitrateKbps = initialBitrateKbps, targetFps = initialFps,
      enableHardwareAcceleration = True\<rparr>"

definition updateTelemetry :: "32 word \<Rightarrow> real option \<Rightarrow> CodecSettings \<Rightarrow> CodecSettings" where
  "updateTelemetry rttMs packetLossRate settings =
     (if rttMs > 200 \<or> loss_exceeds packetLossRate (13421773 / 268435456)
      then settings\<lparr>targetFps := 15, targetBitrateKbps := 2000\<rparr>
      else if rttMs > 80 \<or> loss_exceeds packetLossRate (10737418 / 1073741824)
      then settings\<lparr>targetFps := 30, targetBitrateKbps := 4500\<rparr>
      else settings\<lparr>targetFps := 60, targetBitrateKbps := 8000\<rparr>)"

section \<open>Pixels and rows\<close>

lemma peek_peek: "x + n \<le> m \<Longrightarrow> peek (peek a off m) x n = peek a (off + x) n"
  by (simp add: peek_def drop_take add.commute min_def)

lemma peek_add: "peek a off (m + n) = peek a off m @ peek a (off + m) n"
  by (simp add: peek_def take_add add.commute)

lemma peek_blocks: "peek a off (w * n) = concat (map (\<lambda>x. peek a (off + x * n) n) [0..<w])"
proof (induction w)
  case (Suc w)
  have "peek a off (Suc w * n) = peek a off (w * n) @ peek a (off + w * n) n"
    by (simp only: mult_Suc add.commute [of n "w * n"] peek_add)
  then show ?case using Suc by simp
qed (simp add: peek_def)

lemma peek_eq_blocks:
  "peek a off (w * n) = peek b off (w * n) \<longleftrightarrow> (\<forall>x<w. peek a (off + x * n) n = peek b (off + x * n) n)"
proof
  assume eq: "peek a off (w * n) = peek b off (w * n)"
  show "\<forall>x<w. peek a (off + x * n) n = peek b (off + x * n) n"
  proof (intro allI impI)
    fix x assume "x < w"
    then have "x * n + n \<le> w * n" by (metis Suc_leI add.commute mult_Suc mult_le_mono1)
    then show "peek a (off + x * n) n = peek b (off + x * n) n"
      using eq by (metis peek_peek)
  qed
qed (auto simp: peek_blocks intro!: arg_cong [where f = concat] map_cong)

lemma row_differs_pixels:
  "row_differs prev cur (w * bpp) y \<longleftrightarrow> (\<exists>x<w. pixel_differs prev cur (w * bpp) bpp y x)"
  by (simp add: row_differs_def pixel_differs_def peek_eq_blocks)

lemma frames_equal_rows:
  assumes "length prev = h * stride" and "length cur = h * stride"
  shows "prev = cur \<longleftrightarrow> (\<forall>y<h. \<not> row_differs prev cur stride y)"
  using peek_eq_blocks [of prev 0 h stride cur] assms by (simp add: row_differs_def peek_def)

section \<open>The bounding box\<close>

lemma Min_insert_Min: "finite A \<Longrightarrow> finite B \<Longrightarrow> A \<noteq> {} \<Longrightarrow> Min (insert (Min A) B) = Min (A \<union> B)"
  for A B :: "'a::linorder set"
  by (cases "B = {}") (simp_all add: Min_Un)

lemma Max_insert_Max: "finite A \<Longrightarrow> finite B \<Longrightarrow> A \<noteq> {} \<Longrightarrow> Max (insert (Max A) B) = Max (A \<union> B)"
  for A B :: "'a::linorder set"
  by (cases "B = {}") (simp_all add: Max_Un)

lemma Min_insert2: "finite S \<Longrightarrow> Min (insert a (insert x S)) = min (Min (insert a S)) x"
  for a :: "'a::linorder"
  by (simp add: insert_commute [of a x] min.commute)

lemma Max_insert2: "finite S \<Longrightarrow> Max (insert a (insert x S)) = max (Max (insert a S)) x"
  for a :: "'a::linorder"
  by (simp add: insert_commute [of a x] max.commute)

lemma extent_fold:
  "fold (\<lambda>x (lo, hi). if P x then (min lo (int x), max hi (int x + 1)) else (lo, hi)) [0..<n] (a, b) =
   (Min (insert a (int ` {x. x < n \<and> P x})), Max (insert b ((\<lambda>x. int x + 1) ` {x. x < n \<and> P x})))"
proof (induction n)
  case (Suc n)
  have "{x. x < Suc n \<and> P x} = (if P n then insert n {x. x < n \<and> P x} else {x. x < n \<and> P x})"
    by (auto simp: less_Suc_eq)
  then show ?case using Suc by (cases "P n") (simp_all add: Min_insert2 Max_insert2 del: Min_insert Max_insert)
qed simp

definition changed_pixels :: "bytes \<Rightarrow> bytes \<Rightarrow> nat \<Rightarrow> nat \<Rightarrow> nat \<Rightarrow> (nat \<times> nat) set" where
  "changed_pixels prev cur bpp w n =
     {(x, y). x < w \<and> y < n \<and> pixel_differs prev cur (w * bpp) bpp y x}"

lemma finite_changed_pixels [simp]: "finite (changed_pixels prev cur bpp w n)"
  by (rule finite_subset [of _ "{..<w} \<times> {..<n}"]) (auto simp: changed_pixels_def)

lemma changed_pixels_Suc:
  "changed_pixels prev cur bpp w (Suc n) =
   changed_pixels prev cur bpp w n \<union>
     (\<lambda>x. (x, n)) ` {x. x < w \<and> pixel_differs prev cur (w * bpp) bpp n x}"
  by (auto simp: changed_pixels_def less_Suc_eq)

lemma scan_rows_extent:
  "scan_rows prev cur (w * bpp) bpp w n (a, b, c, d) =
     (let D = changed_pixels prev cur bpp w n
      in (Min (insert a ((\<lambda>p. int (fst p)) ` D)), Min (insert b ((\<lambda>p. int (snd p)) ` D)),
          Max (insert c ((\<lambda>p. int (fst p) + 1) ` D)), Max (insert d ((\<lambda>p. int (snd p) + 1) ` D))))"
proof (induction n)
  case 0
  then show ?case by (simp add: scan_rows_def changed_pixels_def)
next
  case (Suc n)
  define X where "X = {x. x < w \<and> pixel_differs prev cur (w * bpp) bpp n x}"
  define D where "D = changed_pixels prev cur bpp w n"
  have fin: "finite X" "finite D" by (simp_all add: X_def D_def)
  have D': "changed_pixels prev cur bpp w (Suc n) = D \<union> (\<lambda>x. (x, n)) ` X"
    by (simp add: changed_pixels_Suc D_def X_def)
  have row: "row_differs prev cur (w * bpp) n \<longleftrightarrow> X \<noteq> {}"
    by (auto simp: row_differs_pixels X_def)
  have step: "scan_rows prev cur (w * bpp) bpp w (Suc n) (a, b, c, d) =
    (case scan_rows prev cur (w * bpp) bpp w n (a, b, c, d) of (minX, minY, maxX, maxY) \<Rightarrow>
       if X \<noteq> {} then (Min (insert minX (int ` X)), min minY (int n),
                      Max (insert maxX ((\<lambda>x. int x + 1) ` X)), max maxY (int n + 1))
       else (minX, minY, maxX, maxY))"
    by (simp add: scan_rows_def row scan_columns_def extent_fold X_def [symmetric] split: prod.split)
  show ?case
  proof (cases "X = {}")
    case True
    then show ?thesis using Suc by (simp add: step D' D_def Let_def)
  next
    case False
    have "(\<lambda>p. int (snd p)) ` (\<lambda>x. (x, n)) ` X = {int n}"
      "(\<lambda>p. int (snd p) + 1) ` (\<lambda>x. (x, n)) ` X = {int n + 1}"
      using False by (auto simp: image_image)
    then show ?thesis
      using Suc False fin
      by (simp add: step D' D_def [symmetric] Let_def Min_insert_Min Max_insert_Max image_Un image_image
          Min_insert2 Max_insert2 del: Min_insert Max_insert)
  qed
qed

lemma bounding_box:
  fixes f :: "nat \<times> nat \<Rightarrow> nat"
  assumes "finite D" and "D \<noteq> {}" and "\<forall>p\<in>D. f p < w"
  shows "Min (insert (int w) ((\<lambda>p. int (f p)) ` D)) = Min ((\<lambda>p. int (f p)) ` D)"
    and "Max (insert (- 1) ((\<lambda>p. int (f p) + 1) ` D)) = Max ((\<lambda>p. int (f p) + 1) ` D)"
    and "Min ((\<lambda>p. int (f p)) ` D) < Max ((\<lambda>p. int (f p) + 1) ` D)"
    and "0 \<le> Min ((\<lambda>p. int (f p)) ` D)"
    and "Max ((\<lambda>p. int (f p) + 1) ` D) \<le> int w"
proof -
  obtain p where p: "p \<in> D" using assms(2) by blast
  have le: "Min ((\<lambda>p. int (f p)) ` D) \<le> int (f p)" and ge: "int (f p) + 1 \<le> Max ((\<lambda>p. int (f p) + 1) ` D)"
    using assms(1) p by (auto intro: Min_le Max_ge)
  then show "Min ((\<lambda>p. int (f p)) ` D) < Max ((\<lambda>p. int (f p) + 1) ` D)" by linarith
  show "Min (insert (int w) ((\<lambda>p. int (f p)) ` D)) = Min ((\<lambda>p. int (f p)) ` D)"
    using assms p le by (simp add: min_def) (meson int_ops(1) less_imp_of_nat_less not_less order_trans)
  show "Max (insert (- 1) ((\<lambda>p. int (f p) + 1) ` D)) = Max ((\<lambda>p. int (f p) + 1) ` D)"
  proof -
    have "- 1 \<le> Max ((\<lambda>p. int (f p) + 1) ` D)" using ge by linarith
    then show ?thesis using assms by (simp add: max_def)
  qed
  show "0 \<le> Min ((\<lambda>p. int (f p)) ` D)" "Max ((\<lambda>p. int (f p) + 1) ` D) \<le> int w"
    using assms by (auto simp: Min_ge_iff Max_le_iff)
qed

lemma detect_rect:
  assumes "0 < width" and "0 < height"
    and "D = changed_pixels prev cur bpp (nat width) (nat height)"
  shows "detectDirtyRegion (Some prev) (Some cur) width height bpp =
    (if D = {} then clean_rect
     else \<lparr>dirty_x = Min ((\<lambda>p. int (fst p)) ` D), dirty_y = Min ((\<lambda>p. int (snd p)) ` D),
           dirty_width = Max ((\<lambda>p. int (fst p) + 1) ` D) - Min ((\<lambda>p. int (fst p)) ` D),
           dirty_height = Max ((\<lambda>p. int (snd p) + 1) ` D) - Min ((\<lambda>p. int (snd p)) ` D),
           isDirty = True\<rparr>)"
proof (cases "D = {}")
  case True
  then show ?thesis
    using assms by (simp add: detectDirtyRegion_def scan_rows_extent Let_def)
next
  case False
  have fin: "finite D" by (simp add: assms(3))
  have x: "\<forall>p\<in>D. fst p < nat width" and y: "\<forall>p\<in>D. snd p < nat height"
    by (auto simp: assms(3) changed_pixels_def)
  note bx = bounding_box [OF fin False x] and by' = bounding_box [OF fin False y]
  show ?thesis
    using assms(1,2) False bx(3,5) by'(3,5) bx(1,2) by'(1,2)
    by (simp add: detectDirtyRegion_def scan_rows_extent Let_def assms(3) [symmetric] min_def
        del: Min_insert Max_insert)
qed

lemma no_changed_pixels:
  assumes "length prev = h * (w * bpp)" and "length cur = h * (w * bpp)"
  shows "changed_pixels prev cur bpp w h = {} \<longleftrightarrow> prev = cur"
  using frames_equal_rows [OF assms] by (auto simp: row_differs_pixels changed_pixels_def)

section \<open>Painting\<close>

definition shield_colour :: bytes where
  "shield_colour = [0x1e, 0x1e, 0x2e, 0xff]"

lemma length_paint_pixel [simp]: "length (paint_pixel bpp i buf) = length buf"
  by (simp add: paint_pixel_def Let_def)

lemma nth_paint_pixel:
  assumes "bpp = 3 \<or> bpp = 4" and "k < bpp" and "p * bpp + k < length buf"
  shows "paint_pixel bpp (q * bpp) buf ! (p * bpp + k) =
         (if p = q then shield_colour ! k else buf ! (p * bpp + k))"
proof (cases "p = q")
  case True
  have "k \<in> {0, 1, 2, 3}" using assms by auto
  then show ?thesis
    using assms True by (auto simp: paint_pixel_def Let_def shield_colour_def nth_list_update)
next
  case False
  then have "p * bpp + k \<noteq> q * bpp + j" if "j < bpp" for j
    using that assms(2) by (metis add.commute div_mult_self3 div_less add_0_right gr_implies_not0)
  from this [of 0] this [of 1] this [of 2] this [of 3]
  have "p * bpp + k \<noteq> q * bpp" "p * bpp + k \<noteq> q * bpp + 1" "p * bpp + k \<noteq> q * bpp + 2"
    "bpp = 4 \<longrightarrow> p * bpp + k \<noteq> q * bpp + 3"
    using assms(1) by auto
  then show ?thesis using False assms(1) by (auto simp: paint_pixel_def Let_def)
qed

lemma nth_paint_pixels:
  assumes "bpp = 3 \<or> bpp = 4" and "k < bpp" and "p * bpp + k < length buf"
  shows "fold (\<lambda>q. paint_pixel bpp (q * bpp)) qs buf ! (p * bpp + k) =
         (if p \<in> set qs then shield_colour ! k else buf ! (p * bpp + k))"
  using assms(3)
proof (induction qs arbitrary: buf)
  case (Cons q qs)
  then show ?case using nth_paint_pixel [OF assms(1,2), of p buf q] by (cases "p = q") simp_all
qed simp

lemma length_paint_pixels [simp]: "length (fold (\<lambda>q. paint_pixel bpp (f q)) qs buf) = length buf"
  by (induction qs arbitrary: buf) simp_all

lemma fold_fold: "fold (\<lambda>y. fold f (xs y)) ys b = fold f (concat (map xs ys)) b"
  by (induction ys arbitrary: b) simp_all

lemma paint_rect:
  "fold (\<lambda>y. fold (\<lambda>x. paint_pixel bpp (y * (w * bpp) + x * bpp)) [sx..<ex]) [sy..<ey] buf =
   fold (\<lambda>q. paint_pixel bpp (q * bpp)) (concat (map (\<lambda>y. map (\<lambda>x. y * w + x) [sx..<ex]) [sy..<ey])) buf"
proof -
  have "(\<lambda>x. paint_pixel bpp (y * (w * bpp) + x * bpp)) = (\<lambda>q. paint_pixel bpp (q * bpp)) \<circ> (\<lambda>x. y * w + x)" for y
    by (simp add: fun_eq_iff algebra_simps)
  then have "fold (\<lambda>x. paint_pixel bpp (y * (w * bpp) + x * bpp)) [sx..<ex] =
             fold (\<lambda>q. paint_pixel bpp (q * bpp)) (map (\<lambda>x. y * w + x) [sx..<ex])" for y
    by (simp add: fold_map)
  then show ?thesis by (simp only: fold_fold)
qed

definition shielded :: "WindowBounds \<Rightarrow> nat \<Rightarrow> nat \<Rightarrow> bool" where
  "shielded b x y \<longleftrightarrow>
     isActive b \<and> bounds_x b \<le> int x \<and> int x < bounds_x b + bounds_width b \<and>
     bounds_y b \<le> int y \<and> int y < bounds_y b + bounds_height b"

lemma pixel_index_eq: "x < w \<Longrightarrow> x' < w \<Longrightarrow> y * w + x = y' * w + x' \<longleftrightarrow> x = x' \<and> y = (y' :: nat)"
  by (metis add.commute add_right_cancel div_mult_self3 div_less add_0_right gr_implies_not0)

lemma rect_pixels:
  assumes "x < w" and "ex \<le> w"
  shows "y * w + x \<in> set (concat (map (\<lambda>y. map (\<lambda>x. y * w + x) [sx..<ex]) [sy..<ey])) \<longleftrightarrow>
         sx \<le> x \<and> x < ex \<and> sy \<le> y \<and> y < ey"
proof -
  have "y * w + x \<in> set (concat (map (\<lambda>y. map (\<lambda>x. y * w + x) [sx..<ex]) [sy..<ey])) \<longleftrightarrow>
      (\<exists>y'\<in>{sy..<ey}. \<exists>x'\<in>{sx..<ex}. y * w + x = y' * w + x')"
    by (simp only: set_concat set_map set_upt image_image UN_iff image_iff bex_simps)
  also have "\<dots> \<longleftrightarrow> (\<exists>y'\<in>{sy..<ey}. \<exists>x'\<in>{sx..<ex}. x = x' \<and> y = y')"
    using assms pixel_index_eq [of x w] by (intro bex_cong refl) simp
  finally show ?thesis by auto
qed

lemma clipped_axis:
  "x < nat W \<Longrightarrow> nat (max 0 l) \<le> x \<and> x < nat (min W u) \<longleftrightarrow> l \<le> int x \<and> int x < u"
  by (auto simp: nat_le_iff zless_nat_eq_int_zless)

lemma mirror_shield_buffer:
  assumes "0 < W" and "0 < H"
  obtains (outside) "\<forall>x<nat W. \<forall>y<nat H. \<not> shielded b x y"
      "applyMirrorShield (Some buf) W H b bpp = (False, Some buf)"
  | (inside) sx sy ex ey where "ex \<le> nat W" "ey \<le> nat H" "sx < ex" "sy < ey"
      "\<forall>x<nat W. \<forall>y<nat H. shielded b x y \<longleftrightarrow> sx \<le> x \<and> x < ex \<and> sy \<le> y \<and> y < ey"
      "applyMirrorShield (Some buf) W H b bpp =
         (True, Some (fold (\<lambda>q. paint_pixel bpp (q * bpp))
            (concat (map (\<lambda>y. map (\<lambda>x. y * nat W + x) [sx..<ex]) [sy..<ey])) buf))"
proof -
  define sx sy ex ey where "sx = max 0 (bounds_x b)" and "sy = max 0 (bounds_y b)"
    and "ex = min W (bounds_x b + bounds_width b)" and "ey = min H (bounds_y b + bounds_height b)"
  note d = sx_def sy_def ex_def ey_def
  show thesis
  proof (cases "isActive b \<and> sx < ex \<and> sy < ey")
    case True
    have "applyMirrorShield (Some buf) W H b bpp =
         (True, Some (fold (\<lambda>q. paint_pixel bpp (q * bpp))
            (concat (map (\<lambda>y. map (\<lambda>x. y * nat W + x) [nat sx..<nat ex]) [nat sy..<nat ey])) buf))"
      using assms True
      by (simp add: applyMirrorShield_def Let_def d [symmetric] paint_rect [symmetric])
    moreover have "ex \<le> W" "ey \<le> H" "0 \<le> sx" "0 \<le> sy" by (simp_all add: d)
    then have "nat ex \<le> nat W" "nat ey \<le> nat H" "nat sx < nat ex" "nat sy < nat ey"
      using True by (simp_all add: nat_mono)
    moreover have "shielded b x y \<longleftrightarrow> nat sx \<le> x \<and> x < nat ex \<and> nat sy \<le> y \<and> y < nat ey"
      if "x < nat W" "y < nat H" for x y
      using True clipped_axis [OF that(1)] clipped_axis [OF that(2)]
      unfolding shielded_def d by blast
    then have "\<forall>x<nat W. \<forall>y<nat H. shielded b x y \<longleftrightarrow>
        nat sx \<le> x \<and> x < nat ex \<and> nat sy \<le> y \<and> y < nat ey" by blast
    ultimately show thesis by (intro inside)
  next
    case False
    have "applyMirrorShield (Some buf) W H b bpp = (False, Some buf)"
      using False by (auto simp: applyMirrorShield_def Let_def d)
    moreover have "\<forall>x<nat W. \<forall>y<nat H. \<not> shielded b x y"
      using False by (auto simp: shielded_def d)
    ultimately show thesis by (intro outside)
  qed
qed

section \<open>Properties\<close>





text \<open>
  The controller's decision depends only on the current measurement, always lands on one of
  its three tiers, and is monotone: a connection that is no better in round-trip time and in
  loss never gets a higher frame rate or bitrate, whatever either controller did before.
\<close>

theorem updateTelemetry_monotone:
  assumes "rtt1 \<le> rtt2" and "loss1 \<le> (loss2 :: real)"
  shows "targetFps (updateTelemetry rtt2 (Some loss2) s2) \<le> targetFps (updateTelemetry rtt1 (Some loss1) s1) \<and>
    targetBitrateKbps (updateTelemetry rtt2 (Some loss2) s2) \<le>
      targetBitrateKbps (updateTelemetry rtt1 (Some loss1) s1) \<and>
    (targetFps (updateTelemetry rtt2 (Some loss2) s2), targetBitrateKbps (updateTelemetry rtt2 (Some loss2) s2))
      \<in> {(15, 2000), (30, 4500), (60, 8000)}"
  using assms by (auto simp: updateTelemetry_def loss_exceeds_def)

theorem updateTelemetry_monotone_witness:
  "targetFps (updateTelemetry 300 (Some 0) (AdaptiveBitrateController 8000 60)) \<le> targetFps (updateTelemetry 10 (Some 0) (AdaptiveBitrateController 500 5))"
  using updateTelemetry_monotone [of 10 300 0 0 "AdaptiveBitrateController 8000 60" "AdaptiveBitrateController 500 5"] by simp

end
