(* ===== verification/Capture.thy ===== *)
theory Capture
  imports Frame_Analysis "HOL-Library.Sublist"
begin

text \<open>
  Screen capture (\<open>libs/capture\<close>): the X11, DRM and DXGI backends and the stub of the other
  platforms, each with its state and operations, and the contract of \<open>ICaptureBackend.h\<close> as the
  locale \<open>capture_backend\<close>, interpreted on all four. A capture thread is the repetition of
  \<open>captureSingleFrame\<close> while the flag is set; what the platform answers (the screen's image, the
  clock, the attached screens) is an argument of every operation that asks for it.
\<close>

section \<open>Data\<close>

datatype FrameFormat = UnknownFormat | RGBA8888 | BGRA8888 | NV12

record FrameData =
  fwidth :: "32 word"
  fheight :: "32 word"
  stride :: "32 word"
  frame_format :: FrameFormat
  frameNumber :: "64 word"
  timestampUs :: "64 word"
  pixelData :: bytes

record MonitorInfo =
  monitorId :: "32 word"
  monitor_name :: string
  monitor_width :: "32 word"
  monitor_height :: "32 word"
  offsetX :: int
  offsetY :: int
  isPrimary :: bool

text \<open>A buffer of 32-bit pixels filled with one colour: \<open>resize\<close> makes zero bytes, \<open>std::fill\<close>
  stores the colour in the host's byte order.\<close>

definition filled_pixels :: "host \<Rightarrow> nat \<Rightarrow> 32 word \<Rightarrow> 32 word \<Rightarrow> bytes" where
  "filled_pixels H size32 count colour =
     poke (replicate size32 0) 0 (concat (replicate (unat count) (mem_store H colour)))"

section \<open>X11\<close>

record x_image =
  image_data :: bytes
  bits_per_pixel :: nat
  bytes_per_line :: nat

record x_screen_env =
  screen_host :: host
  screen_opens :: bool
  screens :: "(32 word \<times> 32 word) list"
  default_screen :: nat
  screen_image :: "x_image option"
  now_us :: "64 word"

record LinuxX11Capture =
  cap_width :: "32 word"
  cap_height :: "32 word"
  frameCounter :: "64 word"
  isCapturing :: bool
  stopRequested :: bool
  cap_display :: bool
  rootWindow :: nat
  prevFrameData :: bytes
  bitrateController :: CodecSettings
  activeMonitorId :: "32 word"

definition x11cap_new :: LinuxX11Capture where
  "x11cap_new =
     \<lparr>cap_width = 1920, cap_height = 1080, frameCounter = 0, isCapturing = False, stopRequested = False,
      cap_display = False, rootWindow = 0, prevFrameData = [],
      bitrateController = AdaptiveBitrateController 8000 60, activeMonitorId = 0\<rparr>"

definition x11cap_initialize :: "x_screen_env \<Rightarrow> LinuxX11Capture \<Rightarrow> bool \<times> LinuxX11Capture" where
  "x11cap_initialize env st =
     (let st = st\<lparr>cap_display := screen_opens env\<rparr>;
          st = (if cap_display st
                then st\<lparr>rootWindow := default_screen env,
                        cap_width := fst (screens env ! default_screen env),
                        cap_height := snd (screens env ! default_screen env)\<rparr>
                else st\<lparr>cap_width := 1920, cap_height := 1080\<rparr>)
      in (True, st\<lparr>frameCounter := 0, prevFrameData := []\<rparr>))"

definition convert_pixel :: "x_image \<Rightarrow> 32 word \<Rightarrow> nat \<Rightarrow> nat \<Rightarrow> bytes \<Rightarrow> bytes" where
  "convert_pixel img w y x dst =
     (let bpp = bits_per_pixel img div 8;
          srcRow = unat (of_nat y * of_nat (bytes_per_line img) :: 32 word);
          src_at = (\<lambda>k. image_data img ! (srcRow + unat (of_nat x * of_nat bpp + of_nat k :: 32 word)));
          b = src_at 0; g = src_at 1; r = src_at 2;
          dstRow = unat (of_nat y * w * 4 :: 32 word);
          dst_at = (\<lambda>k. dstRow + unat (of_nat x * 4 + of_nat k :: 32 word))
      in dst[dst_at 0 := r, dst_at 1 := g, dst_at 2 := b, dst_at 3 := 0xFF])"

definition convert_image :: "x_image \<Rightarrow> 32 word \<Rightarrow> 32 word \<Rightarrow> bytes \<Rightarrow> bytes" where
  "convert_image img w h dst =
     fold (\<lambda>y. fold (convert_pixel img w y) [0..<unat w]) [0..<unat h] dst"

definition x11cap_captureSingleFrame ::
    "x_screen_env \<Rightarrow> LinuxX11Capture \<Rightarrow> FrameData option \<times> LinuxX11Capture" where
  "x11cap_captureSingleFrame env st =
     (let st = st\<lparr>frameCounter := frameCounter st + 1\<rparr>;
          bufferSize = unat (cap_width st * 4 * cap_height st);
          frame = \<lparr>fwidth = cap_width st, fheight = cap_height st, stride = cap_width st * 4,
                   frame_format = RGBA8888, frameNumber = frameCounter st,
                   timestampUs = now_us env, pixelData = replicate bufferSize 0\<rparr>;
          pattern = frame\<lparr>pixelData := filled_pixels (screen_host env) bufferSize
                                        (cap_width st * cap_height st) 0xFF1E1E2E\<rparr>
      in if cap_display st then
           (case screen_image env of
              Some img \<Rightarrow>
                let frame = frame\<lparr>pixelData := convert_image img (cap_width st) (cap_height st) (pixelData frame)\<rparr>
                in if prevFrameData st \<noteq> [] \<and> length (prevFrameData st) = length (pixelData frame) \<and>
                      \<not> isDirty (detectDirtyRegion (Some (prevFrameData st)) (Some (pixelData frame))
                                   (sint (cap_width st)) (sint (cap_height st)) 4)
                   then (None, st)
                   else (Some frame, st\<lparr>prevFrameData := pixelData frame\<rparr>)
            | None \<Rightarrow> (Some pattern, st))
         else (Some pattern, st))"

text \<open>\<open>startCapture\<close> sets the flags and starts the thread; an iteration of the thread's loop
  captures one frame and then sleeps for the controller's frame time.\<close>

definition x11cap_startCapture :: "LinuxX11Capture \<Rightarrow> bool \<times> LinuxX11Capture" where
  "x11cap_startCapture st =
     (if isCapturing st then (False, st)
      else (True, st\<lparr>stopRequested := False, isCapturing := True\<rparr>))"

definition x11cap_sleepMs :: "LinuxX11Capture \<Rightarrow> 32 word" where
  "x11cap_sleepMs st =
     (let fps = targetFps (bitrateController st) in if 0 < fps then 1000 div fps else 33)"

definition x11cap_stopCapture :: "LinuxX11Capture \<Rightarrow> LinuxX11Capture" where
  "x11cap_stopCapture st =
     (if isCapturing st then st\<lparr>stopRequested := True, isCapturing := False\<rparr> else st)"

fun decimal :: "nat \<Rightarrow> string" where
  "decimal n = (if n < 10 then [''0123456789'' ! n] else decimal (n div 10) @ [''0123456789'' ! (n mod 10)])"

declare decimal.simps [simp del]

definition x11cap_delete :: "LinuxX11Capture \<Rightarrow> LinuxX11Capture" where
  "x11cap_delete st =
     (let st = x11cap_stopCapture st in if cap_display st then st\<lparr>cap_display := False\<rparr> else st)"

definition x11cap_enumerateMonitors :: "x_screen_env \<Rightarrow> LinuxX11Capture \<Rightarrow> MonitorInfo list" where
  "x11cap_enumerateMonitors env st =
     (let fallback = [\<lparr>monitorId = 0, monitor_name = ''Primary Display'', monitor_width = cap_width st,
                       monitor_height = cap_height st, offsetX = 0, offsetY = 0, isPrimary = True\<rparr>]
      in if \<not> cap_display st then fallback
         else let monitors = map (\<lambda>i. \<lparr>monitorId = of_nat i, monitor_name = ''Screen '' @ decimal i,
                                       monitor_width = fst (screens env ! i),
                                       monitor_height = snd (screens env ! i), offsetX = 0, offsetY = 0,
                                       isPrimary = (i = default_screen env)\<rparr>) [0..<length (screens env)]
              in if monitors = [] then fallback else monitors)"

definition x11cap_selectMonitor :: "x_screen_env \<Rightarrow> 32 word \<Rightarrow> LinuxX11Capture \<Rightarrow> bool \<times> LinuxX11Capture" where
  "x11cap_selectMonitor env mid st =
     (case find (\<lambda>m. monitorId m = mid) (x11cap_enumerateMonitors env st) of
        None \<Rightarrow> (False, st)
      | Some mon \<Rightarrow>
          let st = st\<lparr>activeMonitorId := mid, cap_width := monitor_width mon, cap_height := monitor_height mon\<rparr>
          in (True, if cap_display st \<and> mid < of_nat (length (screens env))
                    then st\<lparr>rootWindow := unat mid\<rparr> else st))"

text \<open>
  A window as the X server answers for it: its name if \<open>XFetchName\<close> gives one, its \<open>_NET_WM_NAME\<close>
  property (\<open>None\<close> without such an atom, \<open>Some None\<close> when it cannot be read), its size if its
  attributes can be read, where it is on the root window, and its children.
\<close>

datatype x_window =
  XWindow (fetched_name: "string option") (net_wm_name: "string option option") (attributes: "(int \<times> int) option")
    (root_x: int) (root_y: int) (window_children: "x_window list")

definition getWindowTitle :: "string option \<Rightarrow> string option option \<Rightarrow> string" where
  "getWindowTitle fetched netWmName =
     (case fetched of
        Some title \<Rightarrow> title
      | None \<Rightarrow> (case netWmName of
                   None \<Rightarrow> ''''
                 | Some prop \<Rightarrow> (case prop of Some title \<Rightarrow> title | None \<Rightarrow> '''')))"

text \<open>The search for the viewer's own window, depth first in the tree of windows.\<close>

fun searchClientWindow :: "x_window \<Rightarrow> WindowBounds option" where
  "searchClientWindow (XWindow fetched netWmName attr rx ry children) =
     (let title = getWindowTitle fetched netWmName;
          found = (if title \<noteq> '''' \<and> sublist ''Remote Access Platform'' title
                   then (case attr of
                           None \<Rightarrow> None
                         | Some (w, h) \<Rightarrow>
                             if w > 100 \<and> h > 100
                             then Some \<lparr>bounds_x = rx, bounds_y = ry, bounds_width = w, bounds_height = h, isActive = True\<rparr>
                             else None)
                   else None)
      in case found of
           Some b \<Rightarrow> Some b
         | None \<Rightarrow> fold (\<lambda>c found. case found of Some b \<Rightarrow> Some b | None \<Rightarrow> searchClientWindow c) children None)"

definition findClientWindowBounds :: "x_window option \<Rightarrow> WindowBounds" where
  "findClientWindowBounds rootWin =
     (let bounds = \<lparr>bounds_x = 0, bounds_y = 0, bounds_width = 0, bounds_height = 0, isActive = False\<rparr>
      in case rootWin of
           None \<Rightarrow> bounds
         | Some r \<Rightarrow> (case searchClientWindow r of None \<Rightarrow> bounds | Some b \<Rightarrow> b))"

section \<open>DRM\<close>

record drm_env =
  drm_host :: host
  opens_card0 :: bool
  opens_fb0 :: bool
  drm_now_us :: "64 word"

record LinuxDrmCapture =
  m_isCapturing :: bool
  m_initialized :: bool
  m_width :: "32 word"
  m_height :: "32 word"
  m_stride :: "32 word"
  m_frameCounter :: "64 word"
  m_device :: bool
  drm_activeMonitorId :: "32 word"

definition drm_new :: LinuxDrmCapture where
  "drm_new = \<lparr>m_isCapturing = False, m_initialized = False, m_width = 1920, m_height = 1080,
              m_stride = 1920 * 4, m_frameCounter = 0, m_device = False, drm_activeMonitorId = 0\<rparr>"

definition drm_initialize :: "drm_env \<Rightarrow> LinuxDrmCapture \<Rightarrow> bool \<times> LinuxDrmCapture" where
  "drm_initialize env st =
     (if m_initialized st then (True, st)
      else (True, st\<lparr>m_device := (opens_card0 env \<or> opens_fb0 env), m_initialized := True\<rparr>))"

definition drm_ready :: "drm_env \<Rightarrow> LinuxDrmCapture \<Rightarrow> bool \<times> LinuxDrmCapture" where
  "drm_ready env st = (if m_initialized st then (True, st) else drm_initialize env st)"

definition drm_startCapture :: "drm_env \<Rightarrow> LinuxDrmCapture \<Rightarrow> bool \<times> LinuxDrmCapture" where
  "drm_startCapture env st =
     (case drm_ready env st of
        (False, st) \<Rightarrow> (False, st)
      | (True, st) \<Rightarrow> if m_isCapturing st then (True, st) else (True, st\<lparr>m_isCapturing := True\<rparr>))"

definition drm_stopCapture :: "LinuxDrmCapture \<Rightarrow> LinuxDrmCapture" where
  "drm_stopCapture st = (if \<not> m_isCapturing st then st else st\<lparr>m_isCapturing := False\<rparr>)"

definition drm_captureSingleFrame :: "drm_env \<Rightarrow> LinuxDrmCapture \<Rightarrow> FrameData option \<times> LinuxDrmCapture" where
  "drm_captureSingleFrame env st =
     (case drm_ready env st of
        (False, st) \<Rightarrow> (None, st)
      | (True, st) \<Rightarrow>
          let st = st\<lparr>m_frameCounter := m_frameCounter st + 1\<rparr>;
              colour = (0xFF101010 + ucast (m_frameCounter st mod 255) :: 32 word)
          in (Some \<lparr>fwidth = m_width st, fheight = m_height st, stride = m_stride st,
                    frame_format = RGBA8888, frameNumber = m_frameCounter st,
                    timestampUs = drm_now_us env,
                    pixelData = filled_pixels (drm_host env) (unat (m_stride st * m_height st))
                                  (m_width st * m_height st) colour\<rparr>, st))"

definition drm_delete :: "LinuxDrmCapture \<Rightarrow> LinuxDrmCapture" where
  "drm_delete st = (let st = drm_stopCapture st in if m_device st then st\<lparr>m_device := False\<rparr> else st)"

definition drm_enumerateMonitors :: "LinuxDrmCapture \<Rightarrow> MonitorInfo list" where
  "drm_enumerateMonitors st =
     [\<lparr>monitorId = 0, monitor_name = ''Primary Display (DRM/KMS)'', monitor_width = m_width st,
       monitor_height = m_height st, offsetX = 0, offsetY = 0, isPrimary = True\<rparr>]"

definition drm_selectMonitor :: "32 word \<Rightarrow> LinuxDrmCapture \<Rightarrow> bool \<times> LinuxDrmCapture" where
  "drm_selectMonitor mid st =
     (if mid = 0 then (True, st\<lparr>drm_activeMonitorId := 0\<rparr>) else (False, st))"

section \<open>DXGI\<close>

record dxgi_env =
  dxgi_now_us :: "64 word"
  attached_displays :: "MonitorInfo list"

record WindowsDxgiCapture =
  dx_isCapturing :: bool
  dx_initialized :: bool
  dx_currentMonitorId :: "32 word"
  dx_frameCounter :: "64 word"

definition dxgi_new :: WindowsDxgiCapture where
  "dxgi_new = \<lparr>dx_isCapturing = False, dx_initialized = False, dx_currentMonitorId = 0,
               dx_frameCounter = 0\<rparr>"

definition dxgi_initialize :: "WindowsDxgiCapture \<Rightarrow> bool \<times> WindowsDxgiCapture" where
  "dxgi_initialize st = (True, st\<lparr>dx_initialized := True\<rparr>)"

definition dxgi_enumerateMonitors :: "dxgi_env \<Rightarrow> MonitorInfo list" where
  "dxgi_enumerateMonitors env =
     (if attached_displays env = []
      then [\<lparr>monitorId = 0, monitor_name = ''Primary Display'', monitor_width = 1920,
             monitor_height = 1080, offsetX = 0, offsetY = 0, isPrimary = True\<rparr>]
      else attached_displays env)"

definition dxgi_selectMonitor :: "32 word \<Rightarrow> WindowsDxgiCapture \<Rightarrow> bool \<times> WindowsDxgiCapture" where
  "dxgi_selectMonitor mid st = (True, st\<lparr>dx_currentMonitorId := mid\<rparr>)"

definition dxgi_startCapture :: "WindowsDxgiCapture \<Rightarrow> bool \<times> WindowsDxgiCapture" where
  "dxgi_startCapture st = (if dx_isCapturing st then (True, st) else (True, st\<lparr>dx_isCapturing := True\<rparr>))"

definition dxgi_stopCapture :: "WindowsDxgiCapture \<Rightarrow> WindowsDxgiCapture" where
  "dxgi_stopCapture st = (if \<not> dx_isCapturing st then st else st\<lparr>dx_isCapturing := False\<rparr>)"

definition dxgi_delete :: "WindowsDxgiCapture \<Rightarrow> WindowsDxgiCapture" where
  "dxgi_delete st = dxgi_stopCapture st"

definition dxgi_captureSingleFrame ::
    "dxgi_env \<Rightarrow> WindowsDxgiCapture \<Rightarrow> FrameData option \<times> WindowsDxgiCapture" where
  "dxgi_captureSingleFrame env st =
     (let st = st\<lparr>dx_frameCounter := dx_frameCounter st + 1\<rparr>
      in (Some \<lparr>fwidth = 1920, fheight = 1080, stride = 1920 * 4, frame_format = RGBA8888,
                frameNumber = dx_frameCounter st, timestampUs = dxgi_now_us env,
                pixelData = replicate (unat (1920 * 4 * 1080 :: 32 word)) 0x1E\<rparr>, st))"

section \<open>The stub of the other platforms, and the factory\<close>

record DummyCapture =
  dummy_activeMonitorId :: "32 word"

definition dummy_captureSingleFrame :: "DummyCapture \<Rightarrow> FrameData option \<times> DummyCapture" where
  "dummy_captureSingleFrame st = (None, st)"

definition dummy_startCapture :: "DummyCapture \<Rightarrow> bool \<times> DummyCapture" where
  "dummy_startCapture st = (True, st)"

definition dummy_enumerateMonitors :: "DummyCapture \<Rightarrow> MonitorInfo list" where
  "dummy_enumerateMonitors st =
     [\<lparr>monitorId = 0, monitor_name = ''Primary Display'', monitor_width = 1920,
       monitor_height = 1080, offsetX = 0, offsetY = 0, isPrimary = True\<rparr>,
      \<lparr>monitorId = 1, monitor_name = ''Secondary Display'', monitor_width = 2560,
       monitor_height = 1440, offsetX = 1920, offsetY = 0, isPrimary = False\<rparr>]"

definition dummy_selectMonitor :: "32 word \<Rightarrow> DummyCapture \<Rightarrow> bool \<times> DummyCapture" where
  "dummy_selectMonitor mid st = (True, st\<lparr>dummy_activeMonitorId := mid\<rparr>)"

datatype capture_backend_kind =
  X11Capture LinuxX11Capture | DrmCapture LinuxDrmCapture | StubCapture DummyCapture

definition createDefaultBackend :: "bool \<Rightarrow> string option \<Rightarrow> capture_backend_kind" where
  "createDefaultBackend linux DISPLAY =
     (if \<not> linux then StubCapture \<lparr>dummy_activeMonitorId = 0\<rparr>
      else case DISPLAY of
             None \<Rightarrow> DrmCapture drm_new
           | Some d \<Rightarrow> if length d = 0 then DrmCapture drm_new else X11Capture x11cap_new)"

section \<open>The capture thread\<close>

text \<open>A run of the thread's loop: one capture per answer of the platform, and the callback gets the
  frames there are.\<close>

fun capture_frames :: "('e \<Rightarrow> 's \<Rightarrow> FrameData option \<times> 's) \<Rightarrow> 'e list \<Rightarrow> 's \<Rightarrow> FrameData list" where
  "capture_frames capture [] s = []"
| "capture_frames capture (e # es) s =
     (case capture e s of (f, s') \<Rightarrow> (case f of None \<Rightarrow> [] | Some f \<Rightarrow> [f]) @ capture_frames capture es s')"

section \<open>The contract of a backend\<close>

locale capture_backend =
  fixes capture :: "'e \<Rightarrow> 's \<Rightarrow> FrameData option \<times> 's"
    and start :: "'e \<Rightarrow> 's \<Rightarrow> bool \<times> 's"
    and stop :: "'s \<Rightarrow> 's"
    and capturing :: "'s \<Rightarrow> bool"
    and monitors :: "'e \<Rightarrow> 's \<Rightarrow> MonitorInfo list"
    and select :: "'e \<Rightarrow> 32 word \<Rightarrow> 's \<Rightarrow> bool \<times> 's"
    and current :: "'s \<Rightarrow> 32 word"
    and counter :: "'s \<Rightarrow> 64 word"
    and wf :: "'s \<Rightarrow> bool"
  assumes start_idle: "\<not> capturing s \<Longrightarrow> fst (start e s)"
    and stop_idle: "\<not> capturing (stop s)"
    and capture_frame: "wf s \<Longrightarrow> capture e s = (Some f, s') \<Longrightarrow>
      frameNumber f = counter s + 1 \<and> counter s' = counter s + 1 \<and>
      frame_format f = RGBA8888 \<and> stride f = fwidth f * 4"
    and capture_wf: "wf s \<Longrightarrow> wf (snd (capture e s))"
    and capture_none: "capture e s = (None, s') \<Longrightarrow> counter s' = counter s \<or> counter s' = counter s + 1"
    and monitors_nonempty: "monitors e s \<noteq> []"
    and select_current: "select e m s = (True, s') \<Longrightarrow> current s' = m"
    and select_refused: "select e m s = (False, s') \<Longrightarrow> s' = s"
begin

lemma frame_numbers:
  assumes "wf s" and "f \<in> set (capture_frames capture es s)"
  shows "\<exists>k. 0 < k \<and> k \<le> length es \<and> frameNumber f = counter s + of_nat k"
  using assms
proof (induction es arbitrary: s)
  case (Cons e es)
  obtain r s' where c: "capture e s = (r, s')" by (metis prod.collapse)
  have wf': "wf s'" using capture_wf [OF Cons.prems(1), of e] c by simp
  have later: "f \<in> set (capture_frames capture es s') \<Longrightarrow>
      \<exists>k. 0 < k \<and> k \<le> length (e # es) \<and> frameNumber f = counter s + of_nat k"
  proof -
    assume "f \<in> set (capture_frames capture es s')"
    then obtain k where k: "0 < k" "k \<le> length es" "frameNumber f = counter s' + of_nat k"
      using Cons.IH [OF wf'] by blast
    have "counter s' = counter s \<or> counter s' = counter s + 1"
      using c capture_none capture_frame [OF Cons.prems(1)] by (cases r) auto
    then show ?thesis
    proof
      assume "counter s' = counter s"
      then show ?thesis using k by (intro exI [of _ k]) simp
    next
      assume "counter s' = counter s + 1"
      then show ?thesis using k by (intro exI [of _ "Suc k"]) (simp add: add.assoc add.commute)
    qed
  qed
  show ?case
  proof (cases r)
    case None
    then show ?thesis using Cons.prems c later by simp
  next
    case (Some g)
    then have "frameNumber g = counter s + 1" using capture_frame [OF Cons.prems(1)] c by blast
    then have "\<exists>k. 0 < k \<and> k \<le> length (e # es) \<and> frameNumber g = counter s + of_nat k"
      by (intro exI [of _ 1]) simp
    then show ?thesis using Cons.prems c later Some by auto
  qed
qed simp

lemma frame_numbers_distinct:
  assumes "wf s" and "length es < 2 ^ 64"
  shows "distinct (map frameNumber (capture_frames capture es s))"
  using assms
proof (induction es arbitrary: s)
  case (Cons e es)
  obtain r s' where c: "capture e s = (r, s')" by (metis prod.collapse)
  have wf': "wf s'" using capture_wf [OF Cons.prems(1), of e] c by simp
  have tail: "distinct (map frameNumber (capture_frames capture es s'))" using Cons wf' by simp
  show ?case
  proof (cases r)
    case None
    then show ?thesis using c tail by simp
  next
    case (Some g)
    then have g: "frameNumber g = counter s'" using capture_frame [OF Cons.prems(1)] c by metis
    have "frameNumber f \<noteq> frameNumber g" if later: "f \<in> set (capture_frames capture es s')" for f
    proof -
      obtain k where k: "0 < k" "k \<le> length es" "frameNumber f = counter s' + of_nat k"
        using frame_numbers [OF wf' later] by blast
      then have "k < 2 ^ 64" using Cons.prems(2) by simp
      then have "(of_nat k :: 64 word) \<noteq> 0"
        using k(1) by (simp add: word_of_nat_eq_0_iff nat_dvd_not_less)
      then show ?thesis using g k(3) by simp
    qed
    then have "frameNumber g \<notin> frameNumber ` set (capture_frames capture es s')" by force
    then show ?thesis using c Some tail by simp
  qed
qed simp

end

section \<open>Every backend keeps the contract\<close>

interpretation x11cap: capture_backend x11cap_captureSingleFrame "\<lambda>e. x11cap_startCapture"
  x11cap_stopCapture isCapturing x11cap_enumerateMonitors x11cap_selectMonitor activeMonitorId
  frameCounter "\<lambda>_. True"
proof (unfold_locales, goal_cases)
  case (3 s e f s')
  then show ?case
    by (auto simp: x11cap_captureSingleFrame_def Let_def split: if_splits option.splits)
next
  case (5 e s s')
  then show ?case
    by (auto simp: x11cap_captureSingleFrame_def Let_def split: if_splits option.splits)
next
  case (7 e m s s')
  then show ?case
    by (auto simp: x11cap_selectMonitor_def Let_def split: if_splits option.splits)
next
  case (8 e m s s')
  then show ?case
    by (auto simp: x11cap_selectMonitor_def Let_def split: if_splits option.splits)
qed (simp_all add: x11cap_startCapture_def x11cap_stopCapture_def x11cap_enumerateMonitors_def Let_def)

interpretation drm: capture_backend drm_captureSingleFrame drm_startCapture drm_stopCapture
  m_isCapturing "\<lambda>e. drm_enumerateMonitors" "\<lambda>e. drm_selectMonitor" drm_activeMonitorId
  m_frameCounter "\<lambda>s. m_stride s = m_width s * 4"
proof (unfold_locales, goal_cases)
  case (3 s e f s')
  then show ?case
    by (auto simp: drm_captureSingleFrame_def drm_ready_def drm_initialize_def Let_def split: if_splits)
next
  case (5 e s s')
  then show ?case
    by (auto simp: drm_captureSingleFrame_def drm_ready_def drm_initialize_def Let_def split: if_splits)
next
  case (7 e m s s')
  then show ?case by (auto simp: drm_selectMonitor_def split: if_splits)
next
  case (8 e m s s')
  then show ?case by (auto simp: drm_selectMonitor_def split: if_splits)
qed (auto simp: drm_startCapture_def drm_stopCapture_def drm_captureSingleFrame_def drm_ready_def
       drm_initialize_def drm_enumerateMonitors_def Let_def)

interpretation dxgi: capture_backend dxgi_captureSingleFrame "\<lambda>e. dxgi_startCapture" dxgi_stopCapture
  dx_isCapturing "\<lambda>e s. dxgi_enumerateMonitors e" "\<lambda>e. dxgi_selectMonitor" dx_currentMonitorId
  dx_frameCounter "\<lambda>_. True"
  by unfold_locales
     (auto simp: dxgi_startCapture_def dxgi_stopCapture_def dxgi_captureSingleFrame_def
       dxgi_enumerateMonitors_def dxgi_selectMonitor_def Let_def)

interpretation stubcap: capture_backend "\<lambda>e :: unit. dummy_captureSingleFrame" "\<lambda>e. dummy_startCapture"
  "\<lambda>s. s" "\<lambda>_. False" "\<lambda>e. dummy_enumerateMonitors" "\<lambda>e. dummy_selectMonitor" dummy_activeMonitorId
  "\<lambda>_. 0" "\<lambda>_. True"
  by unfold_locales
     (auto simp: dummy_captureSingleFrame_def dummy_startCapture_def dummy_enumerateMonitors_def
       dummy_selectMonitor_def)

text \<open>A destroyed backend captures no more and has let go of its device.\<close>

lemma deleted_backends:
  "\<not> isCapturing (x11cap_delete st1)" "\<not> cap_display (x11cap_delete st1)"
  "\<not> m_isCapturing (drm_delete st2)" "\<not> m_device (drm_delete st2)" "\<not> dx_isCapturing (dxgi_delete st3)"
  using x11cap.stop_idle drm.stop_idle dxgi.stop_idle
  by (simp_all add: x11cap_delete_def drm_delete_def dxgi_delete_def Let_def)

section \<open>Pixels of a frame\<close>

lemma length_convert_row [simp]: "length (fold (convert_pixel img w y) xs d) = length d"
proof -
  have "length (convert_pixel img w y x d) = length d" for x d
    by (simp add: convert_pixel_def Let_def)
  then show ?thesis by (induction xs arbitrary: d) simp_all
qed

lemma length_convert_image [simp]: "length (convert_image img w h dst) = length dst"
proof -
  have "length (fold (\<lambda>y. fold (convert_pixel img w y) (xs y)) ys d) = length d" for xs ys d
    by (induction ys arbitrary: d) simp_all
  then show ?thesis by (simp add: convert_image_def)
qed

lemma length_fill: "length (concat (replicate n xs)) = n * length xs"
  by (induction n) simp_all

lemma length_filled_pixels:
  "unat count * 4 \<le> size32 \<Longrightarrow> length (filled_pixels H size32 count colour) = size32"
  by (simp add: filled_pixels_def length_poke length_fill)

lemma frame_bytes:
  assumes "unat w * unat h * 4 < 2 ^ 32"
  shows "unat (w * 4 * h :: 32 word) = unat w * unat h * 4" and "unat (w * h) = unat w * unat h"
proof -
  have "unat w * 4 < 2 ^ 32 \<or> unat h = 0" using assms by (cases "unat h") auto
  then show "unat (w * 4 * h) = unat w * unat h * 4"
    using assms by (auto simp: unat_word_ariths mult.assoc mult.commute mult.left_commute)
  have "unat w * unat h < 2 ^ 32" using assms by linarith
  then show "unat (w * h) = unat w * unat h" by (simp add: unat_word_ariths)
qed

lemma convert_pixel_index:
  assumes "unat w * unat h * 4 < 2 ^ 32" and "x < unat w" and "y < unat h" and "k < 4"
  shows "unat (of_nat y * w * 4 :: 32 word) + unat (of_nat x * 4 + of_nat k :: 32 word) = (y * unat w + x) * 4 + k"
proof -
  have "(y * unat w + x) * 4 + k < Suc (y * unat w + x) * 4" using assms(4) by simp
  also have "\<dots> \<le> (Suc y * unat w) * 4" using assms(2) by (intro mult_le_mono1) simp
  also have "\<dots> \<le> (unat h * unat w) * 4" using assms(3) by (intro mult_le_mono1) simp
  finally have le: "(y * unat w + x) * 4 + k < 2 ^ 32" using assms(1) by (simp add: mult.commute)
  moreover have "x * 4 + k \<le> (y * unat w + x) * 4 + k" "y * unat w * 4 \<le> (y * unat w + x) * 4 + k"
    by simp_all
  ultimately have "x * 4 + k < 2 ^ 32" and yw: "y * unat w * 4 < 2 ^ 32" by (metis le_less_trans)+
  then have "unat (of_nat (x * 4 + k) :: 32 word) = x * 4 + k" by (intro unat_of_nat32)
  moreover have "unat (of_nat (y * unat w * 4) :: 32 word) = y * unat w * 4"
    using yw by (intro unat_of_nat32)
  ultimately show ?thesis by simp
qed

definition pixel_bytes :: "x_image \<Rightarrow> nat \<Rightarrow> nat \<Rightarrow> bytes" where
  "pixel_bytes img x y =
     (let src_at = (\<lambda>k. image_data img ! (unat (of_nat y * of_nat (bytes_per_line img) :: 32 word) +
                  unat (of_nat x * of_nat (bits_per_pixel img div 8) + of_nat k :: 32 word)))
      in [src_at 2, src_at 1, src_at 0, 0xFF])"

lemma convert_pixel_poke:
  assumes "unat w * unat h * 4 < 2 ^ 32" and "x < unat w" and "y < unat h"
    and "length dst = unat w * unat h * 4" and "k < 4" and "p < unat w * unat h"
  shows "convert_pixel img w y x dst ! (p * 4 + k) =
         (if p = y * unat w + x then pixel_bytes img x y ! k else dst ! (p * 4 + k))"
proof -
  let ?q = "y * unat w + x"
  have upd: "convert_pixel img w y x dst =
      dst[?q * 4 := pixel_bytes img x y ! 0, ?q * 4 + 1 := pixel_bytes img x y ! 1,
          ?q * 4 + 2 := pixel_bytes img x y ! 2, ?q * 4 + 3 := pixel_bytes img x y ! 3]"
    using convert_pixel_index [OF assms(1-3), of 0] convert_pixel_index [OF assms(1-3), of 1]
      convert_pixel_index [OF assms(1-3), of 2] convert_pixel_index [OF assms(1-3), of 3]
    by (simp add: convert_pixel_def pixel_bytes_def Let_def)
  have "k = 0 \<or> k = 1 \<or> k = 2 \<or> k = 3" using assms(5) by linarith
  moreover have "p * 4 + 3 < length dst" using assms(4,6) by simp
  moreover have "p * 4 + i \<noteq> ?q * 4 + j" if "i < 4" "j < 4" "p \<noteq> ?q" for i j
    using that by presburger
  ultimately show ?thesis unfolding upd by (auto simp: nth_list_update)
qed

lemma convert_row:
  assumes "unat w * unat h * 4 < 2 ^ 32" and "n \<le> unat w" and "y < unat h"
    and "length dst = unat w * unat h * 4" and "k < 4" and "x < unat w" and "y' < unat h"
  shows "fold (convert_pixel img w y) [0..<n] dst ! ((y' * unat w + x) * 4 + k) =
         (if y' = y \<and> x < n then pixel_bytes img x y ! k else dst ! ((y' * unat w + x) * 4 + k))"
  using assms(2)
proof (induction n)
  case (Suc n)
  have "y' * unat w + x < Suc y' * unat w" using assms(6) by simp
  also have "\<dots> \<le> unat h * unat w" using assms(7) by (intro mult_le_mono1) simp
  finally have "y' * unat w + x < unat w * unat h" by (simp add: mult.commute)
  moreover have "y' * unat w + x = y * unat w + n \<longleftrightarrow> x = n \<and> y' = y"
    using pixel_index_eq [of x "unat w" n y' y] assms(6) Suc.prems by simp
  ultimately show ?case
    using Suc assms convert_pixel_poke [OF assms(1) _ assms(3) _ assms(5), of n
        "fold (convert_pixel img w y) [0..<n] dst" "y' * unat w + x" img]
    by (auto simp: less_Suc_eq)
qed simp

lemma convert_rows:
  assumes "unat w * unat h * 4 < 2 ^ 32" and "m \<le> unat h"
    and "length dst = unat w * unat h * 4" and "k < 4" and "x < unat w" and "y < unat h"
  shows "fold (\<lambda>y. fold (convert_pixel img w y) [0..<unat w]) [0..<m] dst ! ((y * unat w + x) * 4 + k) =
         (if y < m then pixel_bytes img x y ! k else dst ! ((y * unat w + x) * 4 + k))"
  using assms(2)
proof (induction m)
  case (Suc m)
  have "length (fold (\<lambda>y. fold (convert_pixel img w y) [0..<unat w]) [0..<m] dst) = length dst"
    by (induction m) simp_all
  then show ?case
    using Suc assms convert_row [OF assms(1) order_refl _ _ assms(4-6), of m
        "fold (\<lambda>y. fold (convert_pixel img w y) [0..<unat w]) [0..<m] dst" img]
    by (auto simp: less_Suc_eq)
qed simp

lemma convert_image_nth:
  assumes "unat w * unat h * 4 < 2 ^ 32" and "length dst = unat w * unat h * 4"
    and "k < 4" and "x < unat w" and "y < unat h"
  shows "convert_image img w h dst ! ((y * unat w + x) * 4 + k) = pixel_bytes img x y ! k"
  using convert_rows [OF assms(1) order_refl assms(2-5)] assms(5) by (simp add: convert_image_def)

section \<open>The search for the viewer's window\<close>

fun preorder :: "x_window \<Rightarrow> x_window list" where
  "preorder (XWindow fetched netWmName attr rx ry children) =
     XWindow fetched netWmName attr rx ry children # concat (map preorder children)"

definition viewer_window :: "x_window \<Rightarrow> bool" where
  "viewer_window x \<longleftrightarrow>
     sublist ''Remote Access Platform'' (getWindowTitle (fetched_name x) (net_wm_name x)) \<and>
     (case attributes x of None \<Rightarrow> False | Some (w, h) \<Rightarrow> w > 100 \<and> h > 100)"

definition window_bounds :: "x_window \<Rightarrow> WindowBounds" where
  "window_bounds x = \<lparr>bounds_x = root_x x, bounds_y = root_y x, bounds_width = fst (the (attributes x)),
                      bounds_height = snd (the (attributes x)), isActive = True\<rparr>"

lemma search_here:
  "searchClientWindow (XWindow fetched netWmName attr rx ry children) =
     (if viewer_window (XWindow fetched netWmName attr rx ry children)
      then Some (window_bounds (XWindow fetched netWmName attr rx ry children))
      else fold (\<lambda>c found. case found of Some b \<Rightarrow> Some b | None \<Rightarrow> searchClientWindow c) children None)"
  by (auto simp: viewer_window_def window_bounds_def Let_def split: option.split)

declare searchClientWindow.simps [simp del]

lemma find_append: "find P (xs @ ys) = (case find P xs of Some x \<Rightarrow> Some x | None \<Rightarrow> find P ys)"
  by (induction xs) simp_all

lemma fold_first:
  "fold (\<lambda>c found. case found of Some b \<Rightarrow> Some b | None \<Rightarrow> f c) cs (Some b) = Some b"
  by (induction cs) simp_all

lemma search_preorder:
  "searchClientWindow x = map_option window_bounds (find viewer_window (preorder x))"
proof (induction x rule: preorder.induct)
  case (1 fetched netWmName attr rx ry children)
  have "fold (\<lambda>c found. case found of Some b \<Rightarrow> Some b | None \<Rightarrow> searchClientWindow c) cs None =
        map_option window_bounds (find viewer_window (concat (map preorder cs)))"
    if "set cs \<subseteq> set children" for cs
    using that
  proof (induction cs)
    case (Cons c cs)
    then show ?case
      using 1 by (cases "find viewer_window (preorder c)") (simp_all add: fold_first find_append)
  qed simp
  then show ?case by (simp add: search_here)
qed

section \<open>Properties\<close>

text \<open>
  Fewer than 2^64 iterations of a capture thread hand over frames with pairwise different
  frame numbers (they become the nonces of the frames' encryption), for the X11 backend whatever
  the screen shows and for the DRM backend alike.
\<close>

theorem frame_numbers_unique:
  assumes "length xs < 2 ^ 64" and "length ds < 2 ^ 64" and "m_stride drm = m_width drm * 4"
  shows "distinct (map frameNumber (capture_frames x11cap_captureSingleFrame xs x11)) \<and>
         distinct (map frameNumber (capture_frames drm_captureSingleFrame ds drm))"
  using x11cap.frame_numbers_distinct assms(1) drm.frame_numbers_distinct [of drm ds] assms(2,3)
  by blast

definition demo_drm_env :: drm_env where
  "demo_drm_env = \<lparr>drm_host = x86_64, opens_card0 = False, opens_fb0 = False, drm_now_us = 0\<rparr>"

theorem frame_numbers_unique_witness:
  "distinct (map frameNumber (capture_frames drm_captureSingleFrame [demo_drm_env, demo_drm_env] drm_new))"
  using frame_numbers_unique [of "[]" "[demo_drm_env, demo_drm_env]" drm_new] by (simp add: drm_new_def)



text \<open>
  The search for the viewer's window finds the first window in preorder whose title contains
  the platform's name and whose size exceeds 100 in both directions; the bounds it reports are
  active exactly when there is such a window.
\<close>

theorem findClientWindowBounds_first:
  "findClientWindowBounds (Some win) =
     (case find viewer_window (preorder win) of
        Some x \<Rightarrow> window_bounds x
      | None \<Rightarrow> \<lparr>bounds_x = 0, bounds_y = 0, bounds_width = 0, bounds_height = 0, isActive = False\<rparr>)"
  by (simp add: findClientWindowBounds_def search_preorder split: option.split)


definition frame_wf :: "FrameData \<Rightarrow> bool" where
  "frame_wf f \<longleftrightarrow> frame_format f = RGBA8888 \<and> unat (stride f) = unat (fwidth f) * 4 \<and>
     length (pixelData f) = unat (fwidth f) * unat (fheight f) * 4"

lemma capture_frames_all:
  assumes "\<And>e s. I s \<Longrightarrow> I (snd (capture e s)) \<and> (\<forall>f. fst (capture e s) = Some f \<longrightarrow> P f)"
    and "I s" and "f \<in> set (capture_frames capture es s)"
  shows "P f"
  using assms(2,3)
proof (induction es arbitrary: s)
  case (Cons e es)
  obtain r s' where c: "capture e s = (r, s')" by (metis prod.collapse)
  then show ?case using assms(1) [OF Cons.prems(1), of e] Cons by (auto split: option.splits)
qed simp

definition sized :: "32 word \<Rightarrow> 32 word \<Rightarrow> bool" where
  "sized w h \<longleftrightarrow> unat w * 4 < 2 ^ 32 \<and> unat w * unat h * 4 < 2 ^ 32"

lemma sized_bytes:
  assumes "sized w h"
  shows "unat (w * 4) = unat w * 4" and "unat (w * 4 * h) = unat w * unat h * 4"
    and "length (filled_pixels H (unat (w * 4 * h)) (w * h) colour) = unat w * unat h * 4"
  using assms frame_bytes [of w h] length_filled_pixels [of "w * h" "unat (w * 4 * h)" H colour]
  by (simp_all add: sized_def unat_word_ariths)

lemma x11_frame_wf:
  assumes "sized (cap_width st) (cap_height st)"
  shows "sized (cap_width (snd (x11cap_captureSingleFrame env st))) (cap_height (snd (x11cap_captureSingleFrame env st)))"
    and "fst (x11cap_captureSingleFrame env st) = Some f \<Longrightarrow> frame_wf f"
  using assms sized_bytes [OF assms]
  by (auto simp: x11cap_captureSingleFrame_def Let_def frame_wf_def split: if_splits option.splits)

definition drm_sized :: "LinuxDrmCapture \<Rightarrow> bool" where
  "drm_sized st \<longleftrightarrow> m_stride st = m_width st * 4 \<and> sized (m_width st) (m_height st)"

lemma drm_frame_wf:
  assumes "drm_sized st"
  shows "drm_sized (snd (drm_captureSingleFrame env st))"
    and "fst (drm_captureSingleFrame env st) = Some f \<Longrightarrow> frame_wf f"
  using assms sized_bytes [of "m_width st" "m_height st"]
  by (auto simp: drm_captureSingleFrame_def drm_ready_def drm_initialize_def Let_def frame_wf_def drm_sized_def
      split: if_splits)

lemma dxgi_frame_wf: "fst (dxgi_captureSingleFrame env st) = Some f \<Longrightarrow> frame_wf f"
  by (auto simp: dxgi_captureSingleFrame_def Let_def frame_wf_def)

text \<open>
  C27: Every frame any of the backends hands over during a capture is a proper RGBA picture: its stride
  is four bytes per pixel of width and its buffer holds exactly width times height pixels. For
  X11 the screen has to be small enough that the sizes do not wrap in 32 bits; the other two
  have a fixed size.
\<close>

theorem captured_frames_typed:
  assumes "sized (cap_width x11) (cap_height x11)"
    and "f \<in> set (capture_frames x11cap_captureSingleFrame xs x11) \<union>
             set (capture_frames drm_captureSingleFrame ds drm_new) \<union>
             set (capture_frames dxgi_captureSingleFrame ws dx)"
  shows "frame_format f = RGBA8888 \<and> unat (stride f) = unat (fwidth f) * 4 \<and>
         length (pixelData f) = unat (stride f) * unat (fheight f)"
proof -
  have "frame_wf f" if "f \<in> set (capture_frames x11cap_captureSingleFrame xs x11)"
    using that assms(1) x11_frame_wf
    by (intro capture_frames_all [where I = "\<lambda>s. sized (cap_width s) (cap_height s)"]) auto
  moreover have "frame_wf f" if "f \<in> set (capture_frames drm_captureSingleFrame ds drm_new)"
  proof (rule capture_frames_all [where I = drm_sized, OF _ _ that])
    show "drm_sized drm_new" by (simp add: drm_sized_def sized_def drm_new_def)
  qed (use drm_frame_wf in blast)
  moreover have "frame_wf f" if "f \<in> set (capture_frames dxgi_captureSingleFrame ws dx)"
    by (rule capture_frames_all [where I = "\<lambda>s. True", OF _ _ that]) (simp_all add: dxgi_frame_wf)
  ultimately have "frame_wf f" using assms(2) by blast
  then show ?thesis by (simp add: frame_wf_def)
qed

theorem captured_frames_typed_witness:
  "\<exists>f. capture_frames drm_captureSingleFrame [demo_drm_env] drm_new = [f] \<and> length (pixelData f) = 1920 * 4 * 1080"
proof -
  obtain f where f: "capture_frames drm_captureSingleFrame [demo_drm_env] drm_new = [f]"
    "unat (stride f) = 1920 * 4" "unat (fheight f) = 1080"
    by (simp add: drm_captureSingleFrame_def drm_ready_def drm_initialize_def drm_new_def Let_def)
  then have "length (pixelData f) = unat (stride f) * unat (fheight f)"
    using captured_frames_typed [of x11cap_new f "[]" "[demo_drm_env]" "[]"]
    by (simp add: sized_def x11cap_new_def)
  then show ?thesis using f by (simp only: f(2,3)) blast
qed

end
