(* ===== verification/Agent.thy ===== *)
theory Agent
  imports Secure_Channel Input_Backend Qt_Text Capture
begin

text \<open>
  The host agent (\<open>apps/agent/src\<close>): the handler of one packet (\<open>AgentPacketHandler.h\<close>), the loop
  over what one \<open>readyRead\<close> delivers, new connections, and the frames sent to the clients
  (\<open>main.cpp\<close>), and the two managers beside them. A connection's state is its socket's properties
  together with what the agent has done for it: messages written, events handed to the input
  backend, texts put on the clipboard, lock commands run.
\<close>

section \<open>State\<close>

record agent_state =
  authenticated :: bool
  isLoopback :: bool
  disconnect_requested :: bool
  written :: "bytes list"
  injected :: "InputEvent list"
  clipboard_texts :: "QString list"
  lock_commands :: nat

record agent_env =
  agent_host :: host
  agent_qt :: qt
  session_key :: bytes
  dynamicOtp :: QString
  has_input_backend :: bool
  has_clipboard :: bool

section \<open>One packet\<close>

definition password_accepted :: "agent_env \<Rightarrow> bytes \<Rightarrow> bool" where
  "password_accepted env decrypted =
     (let Q = agent_qt env;
          reqPassword = trimmed Q (fromUtf8 Q decrypted);
          reqPassword = remove_char Q 32 reqPassword;
          cleanOtp = remove_char Q 32 (dynamicOtp env)
      in reqPassword = cleanOtp \<or> reqPassword = qstr ''admin123'' \<or> reqPassword = [])"

definition read_input_event :: "host \<Rightarrow> bytes \<Rightarrow> InputEvent" where
  "read_input_event H decrypted =
     \<lparr>ev_type = event_type_cast (mem_load H (peek decrypted 0 2)),
      ev_x = mem_load H (peek decrypted 4 4),
      ev_y = mem_load H (peek decrypted 8 4),
      ev_button = mem_load H (peek decrypted 12 4),
      ev_delta = mem_load H (peek decrypted 16 4),
      ev_keycode = mem_load H (peek decrypted 20 4),
      ev_modifiers = 0\<rparr>"

definition handle_auth ::
    "agent_env \<Rightarrow> Packet \<Rightarrow> agent_state \<Rightarrow> crypto_error + agent_state" where
  "handle_auth env packet st =
     (let H = agent_host env; seq = sequenceNumber (header packet)
      in case open_message H (session_key env) packet of
           None \<Rightarrow> Inr st
         | Some decrypted \<Rightarrow>
             if decrypted = [] then Inr st
             else
               let authSuccess = password_accepted env decrypted;
                   st = st\<lparr>authenticated := authSuccess\<rparr>;
                   authCode = (if authSuccess then 0 else 1 :: byte)
               in case seal_message H (session_key env) AuthResponse seq 0 [authCode] of
                    Inl e \<Rightarrow> Inl e
                  | Inr respEncoded \<Rightarrow>
                      let st = st\<lparr>written := written st @ [respEncoded]\<rparr>
                      in Inr (if \<not> authSuccess then st\<lparr>disconnect_requested := True\<rparr> else st))"

definition handle_input :: "agent_env \<Rightarrow> Packet \<Rightarrow> agent_state \<Rightarrow> agent_state" where
  "handle_input env packet st =
     (if authenticated st then
        case open_message (agent_host env) (session_key env) packet of
          None \<Rightarrow> st
        | Some decrypted \<Rightarrow>
            if 24 \<le> length decrypted \<and> has_input_backend env \<and> \<not> isLoopback st
            then st\<lparr>injected := injected st @ [read_input_event (agent_host env) decrypted]\<rparr>
            else st
      else st)"

definition handle_clipboard :: "agent_env \<Rightarrow> Packet \<Rightarrow> agent_state \<Rightarrow> agent_state" where
  "handle_clipboard env packet st =
     (if authenticated st then
        case open_message (agent_host env) (session_key env) packet of
          None \<Rightarrow> st
        | Some decrypted \<Rightarrow>
            if decrypted \<noteq> [] \<and> has_clipboard env
            then st\<lparr>clipboard_texts := clipboard_texts st @ [fromUtf8 (agent_qt env) decrypted]\<rparr>
            else st
      else st)"

definition handle_control :: "agent_env \<Rightarrow> Packet \<Rightarrow> agent_state \<Rightarrow> agent_state" where
  "handle_control env packet st =
     (if authenticated st then
        case open_message (agent_host env) (session_key env) packet of
          None \<Rightarrow> st
        | Some decrypted \<Rightarrow>
            if 4 \<le> length decrypted then
              let actionId = (mem_load (agent_host env) (peek decrypted 0 4) :: 32 word)
              in if actionId = 1 then st
                 else if actionId = 2 then st\<lparr>lock_commands := lock_commands st + 1\<rparr>
                 else st
            else st
      else st)"

definition handleClientPacket ::
    "agent_env \<Rightarrow> Packet \<Rightarrow> agent_state \<Rightarrow> crypto_error + agent_state" where
  "handleClientPacket env packet st =
     (if ptype (header packet) = AuthRequest \<and> payload packet \<noteq> [] then handle_auth env packet st
      else if ptype (header packet) = PayloadType.InputEvent \<and> payload packet \<noteq> []
      then Inr (handle_input env packet st)
      else if ptype (header packet) = ClipboardData \<and> payload packet \<noteq> []
      then Inr (handle_clipboard env packet st)
      else if ptype (header packet) = SessionControl \<and> payload packet \<noteq> []
      then Inr (handle_control env packet st)
      else Inr st)"

section \<open>What one \<open>readyRead\<close> delivers\<close>

text \<open>The buffer is local to the call: what the loop leaves in it is gone.\<close>

partial_function (option) ready_loop ::
    "agent_env \<Rightarrow> bytes \<Rightarrow> agent_state \<Rightarrow> (crypto_error + agent_state) option" where
  "ready_loop env buffer st =
     (if HEADER_SIZE \<le> length buffer then
        (case decode (agent_host env) buffer of
           Inl _ \<Rightarrow> Some (Inr st)
         | Inr packet \<Rightarrow>
             (case handleClientPacket env packet st of
                Inl e \<Rightarrow> Some (Inl e)
              | Inr st' \<Rightarrow> ready_loop env (drop (totalPacketSize packet) buffer) st'))
      else Some (Inr st))"

definition agent_readyRead ::
    "agent_env \<Rightarrow> bytes \<Rightarrow> agent_state \<Rightarrow> (crypto_error + agent_state) option" where
  "agent_readyRead env arrived st = ready_loop env arrived st"

section \<open>New connections\<close>

record peer =
  peer_isLoopback :: bool
  peer_text :: QString

definition isLoopbackPeer :: "qt \<Rightarrow> peer \<Rightarrow> bool" where
  "isLoopbackPeer Q a =
     (let peerStr = peer_text a
      in peer_isLoopback a \<or> contains Q peerStr (qstr ''127.'') \<or>
         contains Q peerStr (qstr ''::1'') \<or> contains Q peerStr (qstr ''localhost'') \<or> peerStr = [])"

definition newConnection :: "qt \<Rightarrow> peer \<Rightarrow> agent_state" where
  "newConnection Q a =
     (let st = \<lparr>authenticated = False, isLoopback = isLoopbackPeer Q a, disconnect_requested = False,
                written = [], injected = [], clipboard_texts = [], lock_commands = 0\<rparr>
      in if isLoopback st then st\<lparr>authenticated := True\<rparr> else st)"

section \<open>Frames to the clients\<close>

definition frame_plaintext :: "host \<Rightarrow> qt \<Rightarrow> FrameData \<Rightarrow> bytes" where
  "frame_plaintext H Q frame =
     (let compressedPixels = qCompress Q (pixelData frame);
          rawSize = (of_nat (length (pixelData frame)) :: 32 word);
          compSize = (of_nat (length compressedPixels) :: 32 word);
          plaintext = replicate (unat (12 + compSize)) 0;
          plaintext = poke plaintext 0 (mem_store H (fwidth frame));
          plaintext = poke plaintext 4 (mem_store H (fheight frame));
          plaintext = poke plaintext 8 (mem_store H rawSize)
      in poke plaintext 12 (take (unat compSize) compressedPixels))"

definition frame_message :: "agent_env \<Rightarrow> FrameData \<Rightarrow> crypto_error + bytes" where
  "frame_message env frame =
     seal_message (agent_host env) (session_key env) FrameHeader (frameNumber frame)
       (timestampUs frame div 1000) (frame_plaintext (agent_host env) (agent_qt env) frame)"

text \<open>The clients with what Qt says of each socket (\<open>client && client->isOpen()\<close>).\<close>

definition broadcast :: "bytes \<Rightarrow> (bool \<times> agent_state) list \<Rightarrow> (bool \<times> agent_state) list" where
  "broadcast message =
     map (\<lambda>(isOpen, c). (isOpen, if isOpen \<and> authenticated c
                                 then c\<lparr>written := written c @ [message]\<rparr> else c))"

definition on_frame ::
    "agent_env \<Rightarrow> FrameData \<Rightarrow> (bool \<times> agent_state) list \<Rightarrow> crypto_error + (bool \<times> agent_state) list" where
  "on_frame env frame clients =
     (if clients = [] then Inr clients
      else case frame_message env frame of
             Inl e \<Rightarrow> Inl e
           | Inr message \<Rightarrow> Inr (broadcast message clients))"

section \<open>The managers\<close>

record SessionObserver =
  observerId :: string
  ipAddress :: string
  isController :: bool

definition addObserver :: "string \<Rightarrow> string \<Rightarrow> bool \<Rightarrow> SessionObserver list \<Rightarrow> SessionObserver list" where
  "addObserver oid ip ctrl observers =
     observers @ [\<lparr>observerId = oid, ipAddress = ip, isController = ctrl\<rparr>]"

definition removeObserver :: "string \<Rightarrow> SessionObserver list \<Rightarrow> SessionObserver list" where
  "removeObserver oid observers = filter (\<lambda>obs. \<not> observerId obs = oid) observers"

definition observerCount :: "SessionObserver list \<Rightarrow> nat" where
  "observerCount observers = length observers"

text \<open>The clipboard of the platform: absent, or holding a text.\<close>

definition getSystemClipboardText :: "QString option \<Rightarrow> QString" where
  "getSystemClipboardText cb = (case cb of Some t \<Rightarrow> t | None \<Rightarrow> [])"

definition setSystemClipboardText :: "QString \<Rightarrow> QString option \<Rightarrow> QString option" where
  "setSystemClipboardText text cb = (case cb of Some _ \<Rightarrow> Some text | None \<Rightarrow> None)"

section \<open>The handler\<close>

text \<open>What an accepted authentication is: an \<open>AuthRequest\<close> that opens to an accepted password.\<close>

definition accepted_auth :: "agent_env \<Rightarrow> Packet \<Rightarrow> bool" where
  "accepted_auth env p \<longleftrightarrow>
     ptype (header p) = AuthRequest \<and>
     (\<exists>d. open_message (agent_host env) (session_key env) p = Some d \<and> d \<noteq> [] \<and> password_accepted env d)"

definition effects :: "agent_state \<Rightarrow> InputEvent list \<times> QString list \<times> nat" where
  "effects st = (injected st, clipboard_texts st, lock_commands st)"

lemma open_key_length:
  "open_message H key p = Some d \<Longrightarrow> length key = KEY_SIZE"
  using crypto.unseal_usable by (auto simp: open_message_def)

lemma handle_auth_Inr: "\<exists>st'. handle_auth env p st = Inr st'"
proof (cases "open_message (agent_host env) (session_key env) p")
  case None
  then show ?thesis by (simp add: handle_auth_def)
next
  case (Some d)
  then have "length (session_key env) = KEY_SIZE" by (rule open_key_length)
  then obtain w where "seal_message (agent_host env) (session_key env) AuthResponse
      (sequenceNumber (header p)) 0 [if password_accepted env d then 0 else 1] = Inr w"
    using seal_message_ok by blast
  then show ?thesis using Some by (simp add: handle_auth_def Let_def)
qed

lemma handler_total: "\<exists>st'. handleClientPacket env p st = Inr st'"
  using handle_auth_Inr by (simp add: handleClientPacket_def)

lemma handle_auth_keeps:
  assumes "handle_auth env p st = Inr st'"
  shows "effects st' = effects st" and "isLoopback st' = isLoopback st"
    and "ptype (header p) = AuthRequest \<Longrightarrow> authenticated st' \<Longrightarrow> \<not> authenticated st \<Longrightarrow> accepted_auth env p"
  using assms
  by (auto simp: handle_auth_def Let_def effects_def accepted_auth_def split: option.splits if_splits sum.splits)

lemma handler_unauthenticated:
  assumes "handleClientPacket env p st = Inr st'" and "\<not> authenticated st"
  shows "effects st' = effects st" and "authenticated st' \<Longrightarrow> accepted_auth env p"
  using assms handle_auth_keeps
  by (auto simp: handleClientPacket_def handle_input_def handle_clipboard_def handle_control_def
      split: if_splits)

lemma handler_loopback:
  assumes "handleClientPacket env p st = Inr st'"
  shows "isLoopback st' = isLoopback st" and "isLoopback st \<Longrightarrow> injected st' = injected st"
proof -
  have "isLoopback st' = isLoopback st \<and> (isLoopback st \<longrightarrow> injected st' = injected st)"
    using assms handle_auth_keeps [of env p st st']
    by (auto simp: handleClientPacket_def handle_input_def handle_clipboard_def handle_control_def
        effects_def Let_def split: if_splits option.splits)
  then show "isLoopback st' = isLoopback st" and "isLoopback st \<Longrightarrow> injected st' = injected st" by auto
qed

section \<open>A delivery and its packets\<close>

function segment_packets :: "host \<Rightarrow> bytes \<Rightarrow> Packet list" where
  "segment_packets H d =
     (if length d < HEADER_SIZE then []
      else case decode H d of Inl _ \<Rightarrow> [] | Inr p \<Rightarrow> p # segment_packets H (drop (packet_span p) d))"
  by pat_completeness auto
termination
proof (relation "measure (\<lambda>(H, d). length d)")
  fix H d p
  assume "\<not> length d < HEADER_SIZE"
  then show "((H, drop (packet_span p) d), (H, d)) \<in> measure (\<lambda>(H, d). length d)"
    using packet_span_ge [of p] by simp
qed simp

declare segment_packets.simps [simp del]

definition handle :: "agent_env \<Rightarrow> Packet \<Rightarrow> agent_state \<Rightarrow> agent_state" where
  "handle env p st = (case handleClientPacket env p st of Inl e \<Rightarrow> st | Inr st' \<Rightarrow> st')"

lemma handler_handle: "handleClientPacket env p st = Inr (handle env p st)"
  using handler_total [of env p st] by (auto simp: handle_def)

lemma ready_loop_handles:
  "length d < 2 ^ 32 \<Longrightarrow>
   ready_loop env d st = Some (Inr (fold (handle env) (segment_packets (agent_host env) d) st))"
proof (induction d arbitrary: st rule: length_induct)
  case (1 d)
  show ?case
  proof (cases "decode (agent_host env) d")
    case (Inl e)
    then show ?thesis by (simp add: ready_loop.simps [of env d] segment_packets.simps [of _ d])
  next
    case (Inr p)
    have "28 \<le> length d" using Inr packet_span_le [OF Inr] packet_span_ge [of p] by simp
    moreover have "totalPacketSize p = packet_span p"
      by (rule totalPacketSize_fits [OF Inr 1(2)])
    moreover have "length (drop (packet_span p) d) < length d"
      using packet_span_ge [of p] packet_span_le [OF Inr] by simp
    ultimately show ?thesis
      using 1 Inr
      by (simp add: ready_loop.simps [of env d] segment_packets.simps [of _ d] handler_handle)
  qed
qed

lemma segment_packets_encode:
  assumes "decode H (w @ d) = Inr p" and "packet_span p = length w"
  shows "segment_packets H (w @ d) = p # segment_packets H d"
  using assms packet_span_ge [of p] by (simp add: segment_packets.simps [of H "w @ d"])

lemma segment_packets_Nil [simp]: "segment_packets H [] = []"
  by (simp add: segment_packets.simps)

section \<open>Everything a connection can go through\<close>

text \<open>
  The states a connection can reach from \<open>st0\<close>, with the packets handled on the way: what arrives
  is handled, in deliveries of any size under 2^32 bytes, and frames are written to it.
\<close>

inductive reached :: "agent_env \<Rightarrow> agent_state \<Rightarrow> Packet list \<Rightarrow> agent_state \<Rightarrow> bool"
  for env st0 where
  start: "reached env st0 [] st0"
| data: "reached env st0 ps st \<Longrightarrow> length arrived < 2 ^ 32 \<Longrightarrow>
    agent_readyRead env arrived st = Some (Inr st') \<Longrightarrow>
    reached env st0 (ps @ segment_packets (agent_host env) arrived) st'"
| frame: "reached env st0 ps st \<Longrightarrow> on_frame env f [(True, st)] = Inr [(True, st')] \<Longrightarrow>
    reached env st0 ps st'"

inductive_cases reachedE: "reached env st0 ps st"

lemma frame_keeps:
  "on_frame env f [(True, st)] = Inr [(True, st')] \<Longrightarrow>
   authenticated st' = authenticated st \<and> effects st' = effects st \<and> isLoopback st' = isLoopback st"
  by (auto simp: on_frame_def broadcast_def effects_def split: sum.splits if_splits)

lemma fold_handle_unauthenticated:
  assumes "\<forall>p \<in> set ps. \<not> accepted_auth env p" and "\<not> authenticated st"
  shows "effects (fold (handle env) ps st) = effects st \<and> \<not> authenticated (fold (handle env) ps st)"
  using assms
proof (induction ps arbitrary: st)
  case (Cons p ps)
  have "effects (handle env p st) = effects st" "\<not> authenticated (handle env p st)"
    using handler_unauthenticated [OF handler_handle] Cons.prems by auto
  then show ?case using Cons by simp
qed simp

lemma fold_handle_loopback:
  assumes "isLoopback st"
  shows "isLoopback (fold (handle env) ps st) \<and> injected (fold (handle env) ps st) = injected st"
  using assms handler_loopback [OF handler_handle] by (induction ps arbitrary: st) auto

lemma reached_unauthenticated:
  assumes "reached env st0 ps st" and "\<not> authenticated st0" and "\<forall>p \<in> set ps. \<not> accepted_auth env p"
  shows "effects st = effects st0 \<and> \<not> authenticated st"
  using assms
proof (induction rule: reached.induct)
  case (data ps st arrived st')
  then show ?case
    using fold_handle_unauthenticated [of "segment_packets (agent_host env) arrived" env st]
    by (auto simp: agent_readyRead_def ready_loop_handles)
next
  case (frame ps st f st')
  then show ?case using frame_keeps by metis
qed simp

lemma reached_loopback:
  assumes "reached env st0 ps st" and "isLoopback st0"
  shows "isLoopback st \<and> injected st = injected st0"
  using assms
proof (induction rule: reached.induct)
  case (data ps st arrived st')
  then show ?case
    using fold_handle_loopback [of st env "segment_packets (agent_host env) arrived"]
    by (auto simp: agent_readyRead_def ready_loop_handles)
next
  case (frame ps st f st')
  then show ?case using frame_keeps [of env f st st'] by (auto simp: effects_def)
qed simp

section \<open>Sealed messages at the agent\<close>

text \<open>A wire message that opens, as the handler sees it.\<close>

lemma arriving_message:
  assumes "seal_message (agent_host env) (session_key env) type seq ts plain = Inr w"
    and "wf_payload_type type" and "length plain + TAG_SIZE < 2 ^ 32"
  obtains p where "decode (agent_host env) (w @ rest) = Inr p" and "packet_span p = length w"
    and "ptype (header p) = type" and "sequenceNumber (header p) = seq"
    and "open_message (agent_host env) (session_key env) p = Some plain" and "payload p \<noteq> []"
proof -
  obtain p where p: "decode (agent_host env) (w @ rest) = Inr p" "packet_meta p = (type, seq, ts)"
      "open_message (agent_host env) (session_key env) p = Some plain" "packet_span p = length w"
      "length (payload p) = length plain + TAG_SIZE"
    using open_seal [OF assms] by blast
  then have "payload p \<noteq> []" by (auto simp: TAG_SIZE_def)
  then show thesis using p that by (simp add: packet_meta_def)
qed

lemma length_sealed:
  assumes "seal_message H key type seq ts plain = Inr w" and "length plain + TAG_SIZE < 2 ^ 32"
  shows "length w = HEADER_SIZE + length plain + TAG_SIZE"
proof -
  obtain c where c: "encryptPayload H plain key (message_nonce H seq) = Inr c" and w: "w = encode H type seq ts c"
    using assms(1) by (auto simp: seal_message_def split: sum.splits)
  have "length c = length plain + TAG_SIZE" by (rule length_encryptPayload [OF c])
  then show ?thesis using assms(2) by (simp add: w length_encode)
qed

lemma handle_auth_message:
  assumes "ptype (header p) = AuthRequest" and "payload p \<noteq> []" and "d \<noteq> []"
    and "open_message (agent_host env) (session_key env) p = Some d"
  shows "\<exists>w. seal_message (agent_host env) (session_key env) AuthResponse (sequenceNumber (header p)) 0
           [if password_accepted env d then 0 else 1] = Inr w \<and>
         handle env p st =
           st\<lparr>authenticated := password_accepted env d, written := written st @ [w],
              disconnect_requested := (if password_accepted env d then disconnect_requested st else True)\<rparr>"
proof -
  have "length (session_key env) = KEY_SIZE" by (rule open_key_length [OF assms(4)])
  then obtain w where "seal_message (agent_host env) (session_key env) AuthResponse (sequenceNumber (header p)) 0
      [if password_accepted env d then 0 else 1] = Inr w"
    using seal_message_ok by blast
  then show ?thesis
    using assms by (cases st) (auto simp: handle_def handleClientPacket_def handle_auth_def Let_def)
qed

text \<open>A delivery that is one sealed message after another.\<close>

lemma segment_message:
  assumes "seal_message (agent_host env) (session_key env) type seq ts plain = Inr w"
    and "wf_payload_type type" and "length plain + TAG_SIZE < 2 ^ 32"
  obtains p where "\<And>d. segment_packets (agent_host env) (w @ d) = p # segment_packets (agent_host env) d"
    and "ptype (header p) = type" and "sequenceNumber (header p) = seq"
    and "open_message (agent_host env) (session_key env) p = Some plain" and "payload p \<noteq> []"
proof -
  obtain p where p: "decode (agent_host env) (w @ []) = Inr p" "packet_span p = length w"
    "ptype (header p) = type" "sequenceNumber (header p) = seq"
    "open_message (agent_host env) (session_key env) p = Some plain" "payload p \<noteq> []"
    using arriving_message [OF assms] by blast
  then have "segment_packets (agent_host env) (w @ d) = p # segment_packets (agent_host env) d" for d
    using decode_append segment_packets_encode by (metis append_Nil2)
  then show thesis using that p by blast
qed

lemma ready_message:
  assumes "seal_message (agent_host env) (session_key env) type seq ts plain = Inr w"
    and "wf_payload_type type" and "length plain + TAG_SIZE + 28 < 2 ^ 32"
  obtains p where "agent_readyRead env w st = Some (Inr (handle env p st))"
    and "ptype (header p) = type" and "sequenceNumber (header p) = seq"
    and "open_message (agent_host env) (session_key env) p = Some plain" and "payload p \<noteq> []"
proof -
  have short: "length plain + TAG_SIZE < 2 ^ 32" using assms(3) by simp
  obtain p where p: "\<And>d. segment_packets (agent_host env) (w @ d) = p # segment_packets (agent_host env) d"
    "ptype (header p) = type" "sequenceNumber (header p) = seq"
    "open_message (agent_host env) (session_key env) p = Some plain" "payload p \<noteq> []"
    using segment_message [OF assms(1,2) short] by blast
  have "length w < 2 ^ 32" using length_sealed [OF assms(1) short] assms(3) by simp
  then have "agent_readyRead env w st = Some (Inr (handle env p st))"
    using p(1) [of "[]"] by (simp add: agent_readyRead_def ready_loop_handles)
  then show thesis using that p by blast
qed

section \<open>Properties\<close>

definition demo_env :: agent_env where
  "demo_env = \<lparr>agent_host = x86_64, agent_qt = plain_text, session_key = sessionKey,
               dynamicOtp = qstr ''123456'', has_input_backend = True, has_clipboard = True\<rparr>"

definition ascii :: "string \<Rightarrow> bytes" where
  "ascii s = map of_char s"

definition demo_connection :: agent_state where
  "demo_connection = newConnection plain_text \<lparr>peer_isLoopback = False, peer_text = qstr ''10.0.0.7''\<rparr>"

lemma demo_master_password: "password_accepted demo_env (ascii ''admin123'')"
  by code_simp

lemma demo_wrong_password: "\<not> password_accepted demo_env (ascii ''nope'')"
  by code_simp

lemma demo_message:
  "\<exists>w. seal_message (agent_host demo_env) (session_key demo_env) type seq ts plain = Inr w"
  using seal_message_ok [of sessionKey] by (simp add: demo_env_def) blast

lemma demo_login:
  "\<exists>ps st. reached demo_env st0 ps st \<and> authenticated st \<and> ps \<noteq> []"
proof -
  obtain w where w: "seal_message (agent_host demo_env) (session_key demo_env) AuthRequest 1 0 (ascii ''admin123'') = Inr w"
    using demo_message by blast
  have short: "length (ascii ''admin123'') + TAG_SIZE + 28 < 2 ^ 32" by (simp add: ascii_def TAG_SIZE_def)
  then have len: "length w < 2 ^ 32" using length_sealed [OF w] by simp
  obtain p where p: "\<And>d. segment_packets (agent_host demo_env) (w @ d) = p # segment_packets (agent_host demo_env) d"
    "ptype (header p) = AuthRequest" "payload p \<noteq> []"
    "open_message (agent_host demo_env) (session_key demo_env) p = Some (ascii ''admin123'')"
    using segment_message [OF w] short by auto
  have "authenticated (handle demo_env p st0)"
    using handle_auth_message [OF p(2,3) _ p(4), of st0] demo_master_password by (auto simp: ascii_def)
  moreover have "reached demo_env st0 ([] @ segment_packets (agent_host demo_env) w) (handle demo_env p st0)"
    using p(1) [of "[]"] len
    by (intro reached.data [OF reached.start]) (simp_all add: agent_readyRead_def ready_loop_handles)
  ultimately show ?thesis using p(1) [of "[]"] by auto
qed

text \<open>
  C9: On a connection from a peer not taken for the local machine, no input event is injected, no
  clipboard text set, no lock command run and the connection is never marked authenticated,
  unless one of the packets handled was an \<open>AuthRequest\<close> that opened under the session key to an
  accepted password; whatever arrives, however it is cut, and whatever frames are sent.
\<close>

theorem agent_effects_need_auth:
  assumes "reached env (newConnection (agent_qt env) a) ps st"
    and "\<not> isLoopbackPeer (agent_qt env) a"
    and "authenticated st \<or> injected st \<noteq> [] \<or> clipboard_texts st \<noteq> [] \<or> lock_commands st \<noteq> 0"
  shows "\<exists>p \<in> set ps. accepted_auth env p"
proof (rule ccontr)
  assume "\<not> (\<exists>p \<in> set ps. accepted_auth env p)"
  then show False
    using reached_unauthenticated [OF assms(1)] assms(2,3)
    by (auto simp: newConnection_def Let_def effects_def)
qed

theorem agent_effects_need_auth_witness:
  "\<exists>ps st. reached demo_env (newConnection plain_text \<lparr>peer_isLoopback = False, peer_text = qstr ''10.0.0.7''\<rparr>) ps st \<and>
     authenticated st \<and> (\<exists>p \<in> set ps. accepted_auth demo_env p)"
proof -
  have "\<not> isLoopbackPeer plain_text \<lparr>peer_isLoopback = False, peer_text = qstr ''10.0.0.7''\<rparr>"
    by code_simp
  moreover have "agent_qt demo_env = plain_text" by (simp add: demo_env_def)
  ultimately show ?thesis
    using demo_login agent_effects_need_auth by metis
qed

text \<open>
  C11: A connection the agent takes for the local machine never has an input event injected,
  whatever it sends and although it counts as authenticated from the start.
\<close>

theorem agent_loopback_never_injects:
  assumes "reached env (newConnection Q a) ps st" and "isLoopbackPeer Q a"
  shows "injected st = [] \<and> authenticated (newConnection Q a)"
  using reached_loopback [OF assms(1)] assms(2) by (simp add: newConnection_def Let_def)

theorem agent_loopback_never_injects_witness:
  "injected (newConnection plain_text \<lparr>peer_isLoopback = True, peer_text = qstr ''127.0.0.1''\<rparr>) = []"
  using agent_loopback_never_injects [OF reached.start [where env = demo_env], of plain_text
      "\<lparr>peer_isLoopback = True, peer_text = qstr ''127.0.0.1''\<rparr>"]
  by (simp add: isLoopbackPeer_def)

text \<open>
  Peers are taken for the local machine by the text of their address: with a Qt whose
  \<open>contains\<close> is substring search, the remote peers 10.127.0.1 and fe80::1 are authenticated
  without a password.
\<close>

theorem remote_peer_authenticated:
  assumes "\<And>s t. contains Q s t \<longleftrightarrow> sublist t s"
    and "peer_text a = qstr ''10.127.0.1'' \<or> peer_text a = qstr ''fe80::1''"
  shows "authenticated (newConnection Q a)"
proof -
  have "sublist (qstr ''127.'') (qstr ''10.127.0.1'')" and "sublist (qstr ''::1'') (qstr ''fe80::1'')"
    by code_simp+
  then show ?thesis using assms by (auto simp: newConnection_def isLoopbackPeer_def Let_def)
qed

theorem remote_peer_authenticated_witness:
  "authenticated (newConnection plain_text \<lparr>peer_isLoopback = False, peer_text = qstr ''10.127.0.1''\<rparr>)"
  by (rule remote_peer_authenticated) (simp_all add: plain_text_def)

text \<open>
  C21: One delivery of fewer than 2^32 bytes is handled to the end without an exception: exactly
  the packets that stand one after another at its front are handled, in order, and the loop ends.
\<close>

theorem agent_readyRead_handles:
  assumes "length arrived < 2 ^ 32"
  shows "agent_readyRead env arrived st =
    Some (Inr (fold (\<lambda>p st. projr (handleClientPacket env p st))
                 (segment_packets (agent_host env) arrived) st))"
proof -
  have "handle env = (\<lambda>p st. projr (handleClientPacket env p st))"
    by (intro ext) (simp add: handler_handle)
  then show ?thesis using ready_loop_handles [OF assms] by (simp add: agent_readyRead_def)
qed

theorem agent_readyRead_handles_witness:
  "agent_readyRead demo_env [1, 2, 3] demo_connection = Some (Inr demo_connection)"
  using agent_readyRead_handles [of "[1, 2, 3]" demo_env demo_connection] by (simp add: segment_packets.simps)

text \<open>
  C22: A packet whose payload is 2^32 - 28 bytes makes \<open>28 + payloadSize\<close> wrap to 0, so nothing is
  removed from the buffer and the loop never returns.
\<close>

theorem agent_readyRead_diverges:
  assumes "length body = 2 ^ 32 - 28"
  shows "agent_readyRead env (encode (agent_host env) Heartbeat s ts body) st = None"
proof -
  define w where "w = encode (agent_host env) Heartbeat s ts body"
  have short: "length body < 2 ^ 32" by (simp only: assms) simp
  have len: "HEADER_SIZE \<le> length w" by (simp add: w_def length_encode [OF short])
  obtain p where p: "decode (agent_host env) w = Inr p" "payloadSize (header p) = of_nat (length body)"
      "ptype (header p) = Heartbeat"
    using decode_of_encode [OF _ short, of Heartbeat "agent_host env" s ts "[]"] by (auto simp: w_def)
  have "unat (payloadSize (header p)) = length body" by (simp only: p(2) size32_exact [OF short])
  then have "unat (payloadSize (header p)) = 2 ^ 32 - 28" by (simp only: assms)
  then have total: "totalPacketSize p = 0" by (simp add: totalPacketSize_eq)
  have quiet: "handleClientPacket env p st = Inr st" for st by (simp add: handleClientPacket_def p(3))
  let ?P = "\<lambda>(e :: agent_env) (d :: bytes) (st :: agent_state) (r :: crypto_error + agent_state). e = env \<longrightarrow> d \<noteq> w"
  have "ready_loop env w st \<noteq> Some r" for r
  proof
    assume r: "ready_loop env w st = Some r"
    have "?P env w st r"
    proof (rule ready_loop.raw_induct [where P = ?P, OF _ r])
      fix f e d st r
      assume IH: "\<And>e d st r. f e d st = Some r \<Longrightarrow> ?P e d st r"
        and eq: "(if HEADER_SIZE \<le> length d then
            case decode (agent_host e) d of Inl _ \<Rightarrow> Some (Inr st)
            | Inr packet \<Rightarrow> (case handleClientPacket e packet st of Inl e \<Rightarrow> Some (Inl e)
                | Inr st' \<Rightarrow> f e (drop (totalPacketSize packet) d) st')
          else Some (Inr st)) = Some r"
      show "?P e d st r"
      proof (intro impI notI)
        assume "e = env" and "d = w"
        then have "f env w st = Some r" using eq len p(1) total quiet by simp
        then show False using IH by blast
      qed
    qed
    then show False by simp
  qed
  then show ?thesis by (auto simp: agent_readyRead_def w_def)
qed

theorem agent_readyRead_diverges_witness:
  "agent_readyRead demo_env
     (encode (agent_host demo_env) Heartbeat 0 0 (replicate (2 ^ 32 - 28) 0)) demo_connection = None"
  by (rule agent_readyRead_diverges) (rule length_replicate)

text \<open>
  When the first part of a packet arrives alone, it is dropped without effect: the bytes are
  in no state of the agent, so the packet can no longer be completed.
\<close>

theorem agent_partial_packet_lost:
  assumes "length body + 28 < 2 ^ 32"
    and "k < length (encode (agent_host env) type s ts body)"
  shows "agent_readyRead env (take k (encode (agent_host env) type s ts body)) st = Some (Inr st)"
proof -
  have short: "length body < 2 ^ 32" using assms(1) by simp
  let ?d = "take k (encode (agent_host env) type s ts body)"
  have "segment_packets (agent_host env) ?d = []"
    using decode_prefix [OF short assms(2)] by (simp add: segment_packets.simps)
  moreover have "length ?d < 2 ^ 32" using assms by (simp add: length_encode [OF short])
  ultimately show ?thesis by (simp only: agent_readyRead_def ready_loop_handles) simp
qed

theorem agent_partial_packet_lost_witness:
  "agent_readyRead demo_env (take 29 (encode (agent_host demo_env) Heartbeat 1 2 [3, 4, 5])) demo_connection = Some (Inr demo_connection)"
  by (rule agent_partial_packet_lost) (simp_all add: length_encode)

text \<open>
  An arriving \<open>AuthRequest\<close> that opens to a non-empty password decides the connection: it is
  authenticated exactly when the password is accepted (also when it was before), one reply is
  written, sealed under the request's sequence number with code 0 or 1, and a rejection asks Qt
  to close the socket; nothing else of the connection changes.
\<close>

theorem agent_auth_decides:
  assumes "seal_message (agent_host env) (session_key env) AuthRequest seq ts pw = Inr w"
    and "pw \<noteq> []" and "length pw + TAG_SIZE + 28 < 2 ^ 32"
  shows "\<exists>reply. seal_message (agent_host env) (session_key env) AuthResponse seq 0
             [if password_accepted env pw then 0 else 1] = Inr reply \<and>
           agent_readyRead env w st = Some (Inr
             (st\<lparr>authenticated := password_accepted env pw, written := written st @ [reply],
                disconnect_requested := disconnect_requested st \<or> \<not> password_accepted env pw\<rparr>))"
proof -
  obtain p where "agent_readyRead env w st = Some (Inr (handle env p st))"
    "ptype (header p) = AuthRequest" "sequenceNumber (header p) = seq"
    "open_message (agent_host env) (session_key env) p = Some pw" "payload p \<noteq> []"
    using ready_message [OF assms(1) _ assms(3)] by auto
  then show ?thesis
    using handle_auth_message [of p pw env st] assms(2) by (auto split: if_splits)
qed

theorem agent_auth_decides_witness:
  "\<exists>w reply. seal_message x86_64 sessionKey AuthRequest 1 0 (ascii ''nope'') = Inr w \<and>
     agent_readyRead demo_env w demo_connection = Some (Inr
       (demo_connection\<lparr>authenticated := False, written := written demo_connection @ [reply], disconnect_requested := True\<rparr>))"
proof -
  obtain w where "seal_message (agent_host demo_env) (session_key demo_env) AuthRequest 1 0 (ascii ''nope'') = Inr w"
    using demo_message by blast
  then show ?thesis
    using agent_auth_decides [of demo_env 1 0 "ascii ''nope''" w demo_connection] demo_wrong_password
    by (auto simp: ascii_def TAG_SIZE_def demo_env_def)
qed

text \<open>
  Whatever the one-time password, the master password and any text that is blank once Qt has
  trimmed it and removed its spaces are accepted; with an empty client password, which seals to
  nothing, no reply comes and nothing changes.
\<close>

theorem agent_password_bypass:
  assumes "remove_char (agent_qt env) 32 (trimmed (agent_qt env) (fromUtf8 (agent_qt env) pw))
             \<in> {[], qstr ''admin123''}"
  shows "password_accepted env pw \<and>
    (seal_message (agent_host env) (session_key env) AuthRequest seq ts [] = Inr w \<longrightarrow>
       agent_readyRead env w st = Some (Inr st))"
proof -
  have "agent_readyRead env w st = Some (Inr st)"
    if w: "seal_message (agent_host env) (session_key env) AuthRequest seq ts [] = Inr w"
  proof -
    obtain p where "agent_readyRead env w st = Some (Inr (handle env p st))"
      "ptype (header p) = AuthRequest" "payload p \<noteq> []"
      "open_message (agent_host env) (session_key env) p = Some []"
      using ready_message [OF w, of st] by (auto simp: TAG_SIZE_def)
    then show ?thesis by (simp add: handle_def handleClientPacket_def handle_auth_def)
  qed
  then show ?thesis using assms by (auto simp: password_accepted_def Let_def)
qed

theorem agent_password_bypass_witness: "password_accepted demo_env (ascii '' '')"
proof -
  have "remove_char (agent_qt demo_env) 32 (trimmed (agent_qt demo_env) (fromUtf8 (agent_qt demo_env) (ascii '' '')))
        \<in> {[], qstr ''admin123''}"
    by code_simp
  then show ?thesis using agent_password_bypass by blast
qed

text \<open>
  A rejected password does not end the delivery it came in: a second \<open>AuthRequest\<close> behind it
  in the same delivery is still decided, so one delivery can try any number of passwords.
\<close>

theorem agent_second_guess:
  assumes "seal_message (agent_host env) (session_key env) AuthRequest s1 t1 wrong = Inr w1"
    and "seal_message (agent_host env) (session_key env) AuthRequest s2 t2 right = Inr w2"
    and "wrong \<noteq> []" and "right \<noteq> []" and "length wrong + length right + 100 < 2 ^ 32"
    and "\<not> password_accepted env wrong" and "password_accepted env right"
  shows "\<exists>st'. agent_readyRead env (w1 @ w2) st = Some (Inr st') \<and>
           authenticated st' \<and> disconnect_requested st'"
proof -
  have l: "length wrong + TAG_SIZE < 2 ^ 32" "length right + TAG_SIZE < 2 ^ 32"
    using assms(5) by (auto simp: TAG_SIZE_def)
  obtain p where p: "\<And>d. segment_packets (agent_host env) (w1 @ d) = p # segment_packets (agent_host env) d"
    "ptype (header p) = AuthRequest" "payload p \<noteq> []"
    "open_message (agent_host env) (session_key env) p = Some wrong"
    using segment_message [OF assms(1) _ l(1)] by auto
  obtain q where q: "\<And>d. segment_packets (agent_host env) (w2 @ d) = q # segment_packets (agent_host env) d"
    "ptype (header q) = AuthRequest" "payload q \<noteq> []"
    "open_message (agent_host env) (session_key env) q = Some right"
    using segment_message [OF assms(2) _ l(2)] by auto
  have "length (w1 @ w2) < 2 ^ 32"
    using assms(5) length_sealed [OF assms(1) l(1)] length_sealed [OF assms(2) l(2)]
    by (simp add: TAG_SIZE_def)
  then have "agent_readyRead env (w1 @ w2) st = Some (Inr (handle env q (handle env p st)))"
    using p(1) [of w2] q(1) [of "[]"] by (simp add: agent_readyRead_def ready_loop_handles)
  moreover have "disconnect_requested (handle env p st)"
    using handle_auth_message [OF p(2,3) assms(3) p(4), of st] assms(6) by auto
  then have "authenticated (handle env q (handle env p st)) \<and> disconnect_requested (handle env q (handle env p st))"
    using handle_auth_message [OF q(2,3) assms(4) q(4), of "handle env p st"] assms(7) by auto
  ultimately show ?thesis by blast
qed

theorem agent_second_guess_witness:
  "\<exists>w1 w2 st'. agent_readyRead demo_env (w1 @ w2) demo_connection = Some (Inr st') \<and> authenticated st' \<and> disconnect_requested st'"
proof -
  obtain w1 where w1: "seal_message (agent_host demo_env) (session_key demo_env) AuthRequest 1 0 (ascii ''nope'') = Inr w1"
    using demo_message by blast
  obtain w2 where w2: "seal_message (agent_host demo_env) (session_key demo_env) AuthRequest 2 0 (ascii ''admin123'') = Inr w2"
    using demo_message by blast
  show ?thesis
    using agent_second_guess [OF w1 w2 _ _ _ demo_wrong_password demo_master_password, of demo_connection]
    by (auto simp: ascii_def)
qed

text \<open>
  The reply to an \<open>AuthRequest\<close> is sealed under the request's own nonce and key, so the two
  messages on the wire give away the first byte of the password: the exclusive or of their first
  sealed bytes is that byte, or that byte with its last bit flipped when the password was rejected.
\<close>

theorem auth_reply_leaks_password:
  assumes "encryptPayload H pw key (message_nonce H seq) = Inr c"
    and "encryptPayload H [code] key (message_nonce H seq) = Inr r" and "pw \<noteq> []"
  shows "c ! 0 XOR r ! 0 = pw ! 0 XOR code"
proof -
  have "c ! 0 = chacha20Xor H pw key (message_nonce H seq) 1 ! 0"
    and "r ! 0 = chacha20Xor H [code] key (message_nonce H seq) 1 ! 0"
    using assms by (auto simp: encryptPayload_Inr_iff nth_append)
  then show ?thesis using assms(3) by (simp add: chacha20Xor_nth xor_same_key)
qed

theorem auth_reply_leaks_password_witness:
  "\<exists>c r. encryptPayload x86_64 [97, 98] sessionKey (message_nonce x86_64 1) = Inr c \<and>
     encryptPayload x86_64 [0] sessionKey (message_nonce x86_64 1) = Inr r \<and> c ! 0 XOR r ! 0 = 97"
proof -
  obtain c where c: "encryptPayload x86_64 [97, 98] sessionKey (message_nonce x86_64 1) = Inr c"
    using encryptPayload_ok [of sessionKey "message_nonce x86_64 1"] by auto
  obtain r where r: "encryptPayload x86_64 [0] sessionKey (message_nonce x86_64 1) = Inr r"
    using encryptPayload_ok [of sessionKey "message_nonce x86_64 1"] by auto
  show ?thesis using c r auth_reply_leaks_password [OF c r] by simp
qed

end
