(* ===== verification/Session_Client.thy ===== *)
theory Session_Client
  imports Secure_Channel Qt_Text Capture
begin

text \<open>
  The desktop client's session (\<open>apps/client/src/SessionClient.cpp\<close>): connecting, the reconnect
  timer, sending sealed messages, and the loop over what the socket delivers. The socket of Qt is
  its state and what is written to it; whether Qt emits \<open>disconnected\<close> inside \<open>abort()\<close> and
  \<open>disconnectFromHost()\<close> or later is the environment's choice (\<open>closes_at_once\<close>). Change
  notifications to the user interface carry no state and are left out, those with content are
  kept in \<open>emitted\<close>.
\<close>

section \<open>State\<close>

datatype socket_state = UnconnectedState | ConnectingState | ConnectedState | ClosingState

datatype client_signal =
    ChatMessageReceived QString QString QString
  | ClipboardTextReceived QString
  | TerminalOutputReceived QString

record history_record =
  h_target :: QString
  h_timestamp :: QString
  h_duration :: QString
  h_status :: QString
  h_reason :: QString

text \<open>An image handed to the frame provider: its size and the buffer Qt reads the pixels from.\<close>

record shown_image =
  img_width :: "32 word"
  img_height :: "32 word"
  img_pixels :: bytes

record client_env =
  client_host :: host
  client_qt :: qt
  now_ms :: int
  now_text :: QString
  now_time :: QString
  history_writable :: bool
  closes_at_once :: bool
  has_frame_provider :: bool

record session =
  sock :: socket_state
  sent :: "bytes list"
  isConnected :: bool
  renderGated :: bool
  statusText :: QString
  lastConnectedTarget :: QString
  requestedPassword :: QString
  receiveBuffer :: bytes
  receivedFrames :: "64 word"
  inputSequence :: "64 word"
  lastClipboardText :: QString
  sys_clipboard :: "QString option"
  shown :: "shown_image list"
  reconnectTimer :: "int option"
  isReconnecting :: bool
  reconnectAttempts :: nat
  userInitiatedDisconnect :: bool
  lastHost :: QString
  lastPort :: "16 word"
  connectionHistory :: "history_record list"
  saved_history :: "history_record list"
  sessionStartTimeMs :: int
  audioMuted :: bool
  terminalOutput :: QString
  emitted :: "client_signal list"

definition maxReconnectAttempts :: nat where "maxReconnectAttempts = 5"

definition qnumber :: "int \<Rightarrow> QString" where
  "qnumber n = (if n < 0 then qstr (''-'' @ decimal (nat (- n))) else qstr (decimal (nat n)))"

definition setStatus :: "QString \<Rightarrow> session \<Rightarrow> session" where
  "setStatus text st = (if statusText st \<noteq> text then st\<lparr>statusText := text\<rparr> else st)"

section \<open>History\<close>

fun trim_history :: "history_record list \<Rightarrow> history_record list" where
  "trim_history h = (if 50 < length h then trim_history (butlast h) else h)"

declare trim_history.simps [simp del]

text \<open>\<open>writable\<close> is whether the history's file opens for writing; the times are formatted by Qt.\<close>

definition saveConnectionHistory :: "bool \<Rightarrow> session \<Rightarrow> session" where
  "saveConnectionHistory writable st = (if writable then st\<lparr>saved_history := connectionHistory st\<rparr> else st)"

definition addHistoryRecord ::
    "client_env \<Rightarrow> QString \<Rightarrow> QString \<Rightarrow> int \<Rightarrow> QString \<Rightarrow> session \<Rightarrow> session" where
  "addHistoryRecord env target status durationSec disconnectReason st =
     (let rec = \<lparr>h_target = target, h_timestamp = now_text env,
                 h_duration = (if 60 \<le> durationSec then qnumber (durationSec div 60) @ qstr '' mins''
                               else qnumber durationSec @ qstr '' secs''),
                 h_status = status, h_reason = disconnectReason\<rparr>;
          st = st\<lparr>connectionHistory := trim_history (rec # connectionHistory st)\<rparr>
      in saveConnectionHistory (history_writable env) st)"

definition clearConnectionHistory :: "client_env \<Rightarrow> session \<Rightarrow> session" where
  "clearConnectionHistory env st = saveConnectionHistory (history_writable env) (st\<lparr>connectionHistory := []\<rparr>)"

text \<open>Loading: the file's records, if it can be read and holds an array; two samples otherwise.\<close>

datatype history_file = NoFile | NotAnArray | Records "history_record list"

definition sample_history :: "QString \<Rightarrow> QString \<Rightarrow> history_record list" where
  "sample_history yesterday before =
     [\<lparr>h_target = qstr ''Local Linux Agent (127.0.0.1:18443)'', h_timestamp = yesterday,
       h_duration = qstr ''45 mins'', h_status = qstr ''Success'', h_reason = qstr ''User Disconnect''\<rparr>,
      \<lparr>h_target = qstr ''Dev Workstation (10.0.0.15:18443)'', h_timestamp = before,
       h_duration = qstr ''12 mins'', h_status = qstr ''Success'', h_reason = qstr ''Network Timeout''\<rparr>]"

definition loadConnectionHistory :: "bool \<Rightarrow> history_file \<Rightarrow> QString \<Rightarrow> QString \<Rightarrow> session \<Rightarrow> session" where
  "loadConnectionHistory writable file yesterday before st =
     (case file of
        NoFile \<Rightarrow> saveConnectionHistory writable (st\<lparr>connectionHistory := sample_history yesterday before\<rparr>)
      | NotAnArray \<Rightarrow> st
      | Records rs \<Rightarrow> st\<lparr>connectionHistory := rs\<rparr>)"

section \<open>Losing the connection\<close>

definition record_disconnect :: "client_env \<Rightarrow> session \<Rightarrow> session" where
  "record_disconnect env st =
     (let wasConnected = isConnected st;
          st = st\<lparr>isConnected := False, receiveBuffer := []\<rparr>;
          durationSec = (if 0 < sessionStartTimeMs st
                         then max 0 ((now_ms env - sessionStartTimeMs st) div 1000) else 0);
          st = (if 0 < sessionStartTimeMs st then st\<lparr>sessionStartTimeMs := 0\<rparr> else st);
          reason = (if userInitiatedDisconnect st then qstr ''User Initiated'' else qstr ''Network Disconnect'')
      in if wasConnected \<and> lastConnectedTarget st \<noteq> []
         then addHistoryRecord env (lastConnectedTarget st) (qstr ''Disconnected'') durationSec reason st
         else st)"

definition schedule_reconnect :: "session \<Rightarrow> session" where
  "schedule_reconnect st =
     (if \<not> userInitiatedDisconnect st \<and> lastHost st \<noteq> [] \<and> reconnectAttempts st < maxReconnectAttempts
      then
        let st = st\<lparr>reconnectAttempts := reconnectAttempts st + 1, isReconnecting := True\<rparr>;
            delayMs = min 30000 (1000 * 2 ^ (reconnectAttempts st - 1));
            st = setStatus (qstr ''Connection lost. Reconnecting in '' @ qnumber (delayMs div 1000) @
                   qstr ''s (Attempt '' @ qnumber (int (reconnectAttempts st)) @ qstr ''/'' @
                   qnumber (int maxReconnectAttempts) @ qstr '')...'') st
        in st\<lparr>reconnectTimer := Some delayMs\<rparr>
      else
        let st = (if isReconnecting st then st\<lparr>isReconnecting := False\<rparr> else st)
        in setStatus (qstr ''Disconnected'') (st\<lparr>lastConnectedTarget := []\<rparr>))"

definition onDisconnected :: "client_env \<Rightarrow> session \<Rightarrow> session" where
  "onDisconnected env st = schedule_reconnect (record_disconnect env st)"

text \<open>\<open>abort()\<close> drops the connection at once; \<open>disconnectFromHost()\<close> of the socket may have to wait
  for pending data. Qt emits \<open>disconnected\<close> only for a socket that was connected.\<close>

definition socket_abort :: "client_env \<Rightarrow> session \<Rightarrow> session" where
  "socket_abort env st =
     (let was = sock st; st = st\<lparr>sock := UnconnectedState\<rparr>
      in if closes_at_once env \<and> (was = ConnectedState \<or> was = ClosingState)
         then onDisconnected env st else st)"

definition socket_disconnect :: "client_env \<Rightarrow> session \<Rightarrow> session" where
  "socket_disconnect env st =
     (if sock st = ConnectedState
      then if closes_at_once env then onDisconnected env (st\<lparr>sock := UnconnectedState\<rparr>)
           else st\<lparr>sock := ClosingState\<rparr>
      else st)"

definition socket_connect :: "session \<Rightarrow> session" where
  "socket_connect st = (if sock st = UnconnectedState then st\<lparr>sock := ConnectingState\<rparr> else st)"

section \<open>Connecting and disconnecting\<close>

definition connectToHost :: "client_env \<Rightarrow> QString \<Rightarrow> 16 word \<Rightarrow> QString \<Rightarrow> session \<Rightarrow> session" where
  "connectToHost env hostName port password st =
     (let st = (if sock st \<noteq> UnconnectedState then socket_abort env st else st);
          st = st\<lparr>requestedPassword := password, lastHost := hostName, lastPort := port,
                  userInitiatedDisconnect := False\<rparr>;
          st = (if lastConnectedTarget st = []
                then st\<lparr>lastConnectedTarget := hostName @ qstr '':'' @ qnumber (uint port)\<rparr> else st);
          st = setStatus (qstr ''Connecting to '' @ lastConnectedTarget st @ qstr ''...'') st
      in socket_connect st)"

definition connectByP2PId :: "client_env \<Rightarrow> QString \<Rightarrow> QString \<Rightarrow> session \<Rightarrow> session" where
  "connectByP2PId env p2pIdInput password st =
     connectToHost env (qstr ''127.0.0.1'') 18443 password
       (st\<lparr>lastConnectedTarget := qstr ''Desk ID: '' @ p2pIdInput\<rparr>)"

definition disconnectFromHost :: "client_env \<Rightarrow> session \<Rightarrow> session" where
  "disconnectFromHost env st =
     (let st = st\<lparr>userInitiatedDisconnect := True, reconnectTimer := None\<rparr>;
          st = (if isReconnecting st then st\<lparr>isReconnecting := False\<rparr> else st)
      in if sock st \<noteq> UnconnectedState then socket_disconnect env st else st)"

text \<open>Destruction: the socket's signals are blocked first, so closing it does not count as a disconnect.\<close>

definition session_delete :: "session \<Rightarrow> session" where
  "session_delete st =
     (let st = (if sock st \<noteq> UnconnectedState then st\<lparr>sock := UnconnectedState\<rparr> else st)
      in st\<lparr>receiveBuffer := []\<rparr>)"

definition onErrorOccurred :: "QString \<Rightarrow> session \<Rightarrow> session" where
  "onErrorOccurred errorString st =
     (let st = st\<lparr>isConnected := False, receiveBuffer := []\<rparr>
      in if \<not> isReconnecting st then setStatus (qstr ''Socket Error: '' @ errorString) st else st)"

definition attemptReconnect :: "session \<Rightarrow> session" where
  "attemptReconnect st =
     (if userInitiatedDisconnect st \<or> lastHost st = [] then st
      else socket_connect (setStatus (qstr ''Reconnecting to '' @ lastConnectedTarget st @
             qstr '' (Attempt '' @ qnumber (int (reconnectAttempts st)) @ qstr ''/'' @
             qnumber (int maxReconnectAttempts) @ qstr '')...'') st))"

definition cancelReconnect :: "session \<Rightarrow> session" where
  "cancelReconnect st =
     (let st = st\<lparr>userInitiatedDisconnect := True, reconnectTimer := None\<rparr>;
          st = (if isReconnecting st then st\<lparr>isReconnecting := False\<rparr> else st);
          st = st\<lparr>reconnectAttempts := 0, lastConnectedTarget := []\<rparr>
      in setStatus (qstr ''Reconnection Canceled by User'') st)"

section \<open>Sending\<close>

text \<open>Every send: the next sequence number, its nonce, seal, encode, write. The key and the nonce
  have the sizes \<open>encryptPayload\<close> asks for, so its exception does not occur.\<close>

definition send_sealed :: "client_env \<Rightarrow> PayloadType \<Rightarrow> bytes \<Rightarrow> session \<Rightarrow> session" where
  "send_sealed env type plaintext st =
     (let st = st\<lparr>inputSequence := inputSequence st + 1\<rparr>
      in case seal_message (client_host env) sessionKey type (inputSequence st) 0 plaintext of
           Inl _ \<Rightarrow> st
         | Inr w \<Rightarrow> st\<lparr>sent := sent st @ [w]\<rparr>)"

definition input_plaintext ::
    "host \<Rightarrow> 16 word \<Rightarrow> 32 word \<Rightarrow> 32 word \<Rightarrow> 32 word \<Rightarrow> 32 word \<Rightarrow> 32 word \<Rightarrow> bytes" where
  "input_plaintext H type x y button delta keycode =
     (let plaintext = replicate 24 0;
          plaintext = poke plaintext 0 (mem_store H type);
          plaintext = poke plaintext 4 (mem_store H x);
          plaintext = poke plaintext 8 (mem_store H y);
          plaintext = poke plaintext 12 (mem_store H button);
          plaintext = poke plaintext 16 (mem_store H delta)
      in poke plaintext 20 (mem_store H keycode))"

definition sendInputEvent ::
    "client_env \<Rightarrow> 16 word \<Rightarrow> 32 word \<Rightarrow> 32 word \<Rightarrow> 32 word \<Rightarrow> 32 word \<Rightarrow> 32 word \<Rightarrow> 32 word \<Rightarrow>
     session \<Rightarrow> session" where
  "sendInputEvent env type x y button delta keycode modifiers st =
     (if sock st \<noteq> ConnectedState then st
      else send_sealed env PayloadType.InputEvent
             (input_plaintext (client_host env) type x y button delta keycode) st)"

definition sendClipboardText :: "client_env \<Rightarrow> QString \<Rightarrow> session \<Rightarrow> session" where
  "sendClipboardText env text st =
     (if sock st \<noteq> ConnectedState then st
      else if text = lastClipboardText st then st
      else send_sealed env ClipboardData (toUtf8 (client_qt env) text) (st\<lparr>lastClipboardText := text\<rparr>))"

definition sendChatMessage :: "client_env \<Rightarrow> QString \<Rightarrow> session \<Rightarrow> session" where
  "sendChatMessage env message st =
     (if trimmed (client_qt env) message = [] then st
      else
        let cleanMsg = trimmed (client_qt env) message;
            st = sendClipboardText env (qstr ''CHAT:'' @ cleanMsg) st
        in st\<lparr>emitted := emitted st @ [ChatMessageReceived (qstr ''You'') cleanMsg (now_time env)]\<rparr>)"

definition sendSessionControlAction :: "client_env \<Rightarrow> 32 word \<Rightarrow> session \<Rightarrow> session" where
  "sendSessionControlAction env actionId st =
     (if sock st \<noteq> ConnectedState then st
      else send_sealed env SessionControl (poke (replicate 4 0) 0 (mem_store (client_host env) actionId)) st)"

definition onClipboardChanged :: "client_env \<Rightarrow> session \<Rightarrow> session" where
  "onClipboardChanged env st =
     (if \<not> isConnected st then st
      else case sys_clipboard st of
             None \<Rightarrow> st
           | Some text \<Rightarrow> if text \<noteq> [] \<and> text \<noteq> lastClipboardText st then sendClipboardText env text st else st)"

definition onConnected :: "client_env \<Rightarrow> session \<Rightarrow> session" where
  "onConnected env st =
     (let st = st\<lparr>isConnected := True, receiveBuffer := [], receivedFrames := 0, inputSequence := 0,
                  reconnectAttempts := 0, sessionStartTimeMs := now_ms env\<rparr>;
          st = (if isReconnecting st then st\<lparr>isReconnecting := False\<rparr> else st);
          st = send_sealed env AuthRequest (toUtf8 (client_qt env) (requestedPassword st)) st
      in setStatus (qstr ''Connected to '' @
           (if lastConnectedTarget st = [] then qstr ''Remote Desk'' else lastConnectedTarget st)) st)"

section \<open>Receiving\<close>

text \<open>What is shown of an opened frame. The image reads \<open>width * height * 4\<close> bytes from the buffer
  it is given, whose size is what \<open>qUncompress\<close> returned.\<close>

definition frame_image :: "host \<Rightarrow> qt \<Rightarrow> bytes \<Rightarrow> shown_image option" where
  "frame_image H Q decrypted =
     (let width = mem_load H (peek decrypted 0 4);
          height = (mem_load H (peek decrypted 4 4) :: 32 word);
          compressedData = drop 12 decrypted;
          uncompressedPixels = qUncompress Q compressedData;
          uncompressedPixels =
            (if uncompressedPixels = [] \<and>
                unat (8 + ucast width * ucast height * 4 :: 64 word) \<le> length decrypted
             then take (unat (width * height * 4)) (drop 8 decrypted) else uncompressedPixels)
      in if 0 < width \<and> 0 < height \<and> uncompressedPixels \<noteq> []
         then Some \<lparr>img_width = width, img_height = height, img_pixels = uncompressedPixels\<rparr>
         else None)"

definition image_in_bounds :: "shown_image \<Rightarrow> bool" where
  "image_in_bounds img \<longleftrightarrow> unat (img_width img) * unat (img_height img) * 4 \<le> length (img_pixels img)"

definition receive_frame :: "client_env \<Rightarrow> Packet \<Rightarrow> session \<Rightarrow> session" where
  "receive_frame env packet st =
     (case open_message (client_host env) sessionKey packet of
        None \<Rightarrow> st
      | Some decrypted \<Rightarrow>
          if 12 \<le> length decrypted then
            (case frame_image (client_host env) (client_qt env) decrypted of
               None \<Rightarrow> st
             | Some img \<Rightarrow> if has_frame_provider env
                           then st\<lparr>shown := shown st @ [img], receivedFrames := receivedFrames st + 1\<rparr>
                           else st)
          else st)"

definition receive_clipboard :: "client_env \<Rightarrow> Packet \<Rightarrow> session \<Rightarrow> session" where
  "receive_clipboard env packet st =
     (case open_message (client_host env) sessionKey packet of
        None \<Rightarrow> st
      | Some decrypted \<Rightarrow>
          if decrypted = [] then st
          else
            let text = fromUtf8 (client_qt env) decrypted
            in if startsWith (client_qt env) text (qstr ''CHAT:'')
               then st\<lparr>emitted := emitted st @ [ChatMessageReceived (qstr ''Remote Host'') (mid (client_qt env) text 5) (now_time env)]\<rparr>
               else
                 let st = st\<lparr>lastClipboardText := text,
                             sys_clipboard := map_option (\<lambda>_. text) (sys_clipboard st)\<rparr>
                 in st\<lparr>emitted := emitted st @ [ClipboardTextReceived text]\<rparr>)"

definition receive_auth :: "client_env \<Rightarrow> Packet \<Rightarrow> session \<Rightarrow> session" where
  "receive_auth env packet st =
     (case open_message (client_host env) sessionKey packet of
        None \<Rightarrow> st
      | Some decrypted \<Rightarrow>
          if decrypted = [] then st
          else if decrypted ! 0 = 0
          then setStatus (qstr ''Connected to '' @
                 (if lastConnectedTarget st = [] then qstr ''Remote Desk'' else lastConnectedTarget st) @
                 qstr '' '' @ [0x2014] @ qstr '' Session Verified'') st
          else disconnectFromHost env
                 (setStatus (qstr ''Authentication Failed: Invalid Remote Password'') st))"

definition receive_terminal :: "client_env \<Rightarrow> Packet \<Rightarrow> session \<Rightarrow> session" where
  "receive_terminal env packet st =
     (case open_message (client_host env) sessionKey packet of
        None \<Rightarrow> st
      | Some decrypted \<Rightarrow>
          if decrypted = [] then st
          else
            let text = fromUtf8 (client_qt env) decrypted
            in st\<lparr>terminalOutput := terminalOutput st @ text,
                  emitted := emitted st @ [TerminalOutputReceived text]\<rparr>)"

definition receive_packet :: "client_env \<Rightarrow> Packet \<Rightarrow> session \<Rightarrow> session" where
  "receive_packet env packet st =
     (if ptype (header packet) = FrameHeader \<and> payload packet \<noteq> [] then
        (if renderGated st then st else receive_frame env packet st)
      else if ptype (header packet) = ClipboardData \<and> payload packet \<noteq> [] then receive_clipboard env packet st
      else if ptype (header packet) = AuthResponse \<and> payload packet \<noteq> [] then receive_auth env packet st
      else if ptype (header packet) = TerminalData \<and> payload packet \<noteq> [] then receive_terminal env packet st
      else st)"

partial_function (option) read_loop :: "client_env \<Rightarrow> session \<Rightarrow> session option" where
  "read_loop env st =
     (if HEADER_SIZE \<le> length (receiveBuffer st) then
        (case decode (client_host env) (receiveBuffer st) of
           Inl err \<Rightarrow>
             if err = IncompleteHeader \<or> err = IncompletePayload then Some st
             else read_loop env (st\<lparr>receiveBuffer := drop 1 (receiveBuffer st)\<rparr>)
         | Inr packet \<Rightarrow>
             let st = receive_packet env packet st
             in read_loop env (st\<lparr>receiveBuffer := drop (totalPacketSize packet) (receiveBuffer st)\<rparr>))
      else Some st)"

definition onReadyRead :: "client_env \<Rightarrow> bytes \<Rightarrow> session \<Rightarrow> session option" where
  "onReadyRead env arrived st = read_loop env (st\<lparr>receiveBuffer := receiveBuffer st @ arrived\<rparr>)"

definition setRenderGated :: "bool \<Rightarrow> session \<Rightarrow> session" where
  "setRenderGated gated st = st\<lparr>renderGated := gated\<rparr>"

section \<open>The terminal\<close>

definition clearTerminal :: "session \<Rightarrow> session" where
  "clearTerminal st = st\<lparr>terminalOutput := qstr ''$ ''\<rparr>"

definition nl :: QString where "nl = [10]"

definition shell_reply :: "QString \<Rightarrow> QString" where
  "shell_reply cmd =
     (if cmd = qstr ''help'' then
        qstr ''Available commands: help, uname -a, ps aux, free -h, uptime, whoami, clear, exit'' @ nl @ qstr ''$ ''
      else if cmd = qstr ''uname -a'' then
        qstr ''Linux rap-agent-host 6.8.0-45-generic #45-Ubuntu SMP PREEMPT_DYNAMIC x86_64 x86_64 x86_64 GNU/Linux''
          @ nl @ qstr ''$ ''
      else if cmd = qstr ''whoami'' then qstr ''root (Host Agent Service Container)'' @ nl @ qstr ''$ ''
      else if cmd = qstr ''uptime'' then
        qstr '' 20:38:12 up 4 days, 12:45,  1 user,  load average: 0.14, 0.22, 0.18'' @ nl @ qstr ''$ ''
      else if cmd = qstr ''free -h'' then
        qstr ''               total        used        free      shared  buff/cache   available'' @ nl @
        qstr ''Mem:           31Gi       4.2Gi        21Gi       128Mi       5.8Gi        26Gi'' @ nl @
        qstr ''Swap:         2.0Gi          0B       2.0Gi'' @ nl @ qstr ''$ ''
      else if cmd = qstr ''ps aux'' then
        qstr ''USER         PID %CPU %MEM    VSZ   RSS TTY      STAT START   TIME COMMAND'' @ nl @
        qstr ''root           1  0.0  0.1 168340 11420 ?        Ss   Aug26   0:04 /sbin/init'' @ nl @
        qstr ''root       18443  1.2  0.5 450120 42300 ?        Ssl  14:00   1:12 ./rap-agent --daemon'' @ nl @
        qstr ''$ ''
      else qstr ''bash: '' @ cmd @ qstr '': command executed on remote agent'' @ nl @ qstr ''$ '')"

definition sendTerminalInput :: "client_env \<Rightarrow> QString \<Rightarrow> session \<Rightarrow> session" where
  "sendTerminalInput env command st =
     (if command = [] then st
      else
        let cleanCmd = trimmed (client_qt env) command;
            st = st\<lparr>terminalOutput := terminalOutput st @ cleanCmd @ nl\<rparr>
        in if cleanCmd = qstr ''clear'' then clearTerminal st
           else st\<lparr>terminalOutput := terminalOutput st @ shell_reply cleanCmd,
                   emitted := emitted st @ [TerminalOutputReceived cleanCmd]\<rparr>)"

section \<open>What the operations keep\<close>

lemma seal_session_ok:
  obtains w where "seal_message H sessionKey type seq ts plain = Inr w"
  using seal_message_ok [of sessionKey H plain seq type ts] by auto

lemma send_sealed_eq:
  obtains w where "seal_message (client_host env) sessionKey type (inputSequence st + 1) 0 plain = Inr w"
    and "send_sealed env type plain st = st\<lparr>inputSequence := inputSequence st + 1, sent := sent st @ [w]\<rparr>"
proof -
  obtain w where "seal_message (client_host env) sessionKey type (inputSequence st + 1) 0 plain = Inr w"
    by (rule seal_session_ok)
  then show thesis using that by (simp add: send_sealed_def)
qed

lemma trim_history_take: "trim_history h = take 50 h"
proof (induction h rule: trim_history.induct)
  case (1 h)
  show ?case
    using 1 by (cases "50 < length h") (simp_all add: trim_history.simps [of h] take_butlast)
qed

lemma setStatus_eq: "setStatus s st = st\<lparr>statusText := s\<rparr>"
  by (simp add: setStatus_def)

lemma clear_reconnecting: "(if isReconnecting st then st\<lparr>isReconnecting := False\<rparr> else st) = st\<lparr>isReconnecting := False\<rparr>"
  by simp

text \<open>The variables of reconnecting.\<close>

definition link :: "session \<Rightarrow> socket_state \<times> nat \<times> int option" where
  "link st = (sock st, reconnectAttempts st, reconnectTimer st)"

lemma link_setStatus [simp]: "link (setStatus s st) = link st"
  by (simp add: setStatus_eq link_def)

lemma link_send_sealed [simp]: "link (send_sealed env t p st) = link st"
proof -
  obtain w where "send_sealed env t p st = st\<lparr>inputSequence := inputSequence st + 1, sent := sent st @ [w]\<rparr>"
    by (rule send_sealed_eq)
  then show ?thesis by (simp add: link_def)
qed

lemma link_updates [simp]:
  "link (st\<lparr>lastClipboardText := u\<rparr>) = link st" "link (st\<lparr>emitted := e\<rparr>) = link st"
  by (simp_all add: link_def)

lemma link_sendClipboardText [simp]: "link (sendClipboardText env text st) = link st"
  by (simp add: sendClipboardText_def)

lemma link_sends [simp]:
  "link (sendInputEvent env t x y b d k m st) = link st"
  "link (sendChatMessage env text st) = link st"
  "link (sendSessionControlAction env a st) = link st"
  "link (onClipboardChanged env st) = link st"
  by (simp_all add: sendInputEvent_def sendChatMessage_def sendSessionControlAction_def
      onClipboardChanged_def Let_def split: option.split)

text \<open>A disconnect is only reported for a socket that was connected, and connecting resets the
  count, so the count cannot climb.\<close>

definition reconnect_inv :: "session \<Rightarrow> bool" where
  "reconnect_inv st \<longleftrightarrow>
     (sock st = ConnectedState \<or> sock st = ClosingState \<longrightarrow> reconnectAttempts st = 0) \<and>
     reconnectAttempts st \<le> 1 \<and> reconnectTimer st \<in> {None, Some 1000}"

lemma reconnect_inv_link: "link st = link st' \<Longrightarrow> reconnect_inv st \<longleftrightarrow> reconnect_inv st'"
  by (simp add: reconnect_inv_def link_def)

lemma reconnect_inv_setStatus [simp]: "reconnect_inv (setStatus s st) = reconnect_inv st"
  by (rule reconnect_inv_link) simp

lemma link_addHistoryRecord [simp]: "link (addHistoryRecord env t s d r st) = link st"
  by (simp add: addHistoryRecord_def saveConnectionHistory_def Let_def link_def)

lemma link_record_disconnect: "link (record_disconnect env st) = link st"
proof -
  have "link (if c then addHistoryRecord env t s d r st else st) = link st" for c t s d r st by simp
  moreover have "link (if c then st\<lparr>sessionStartTimeMs := 0\<rparr> else st) = link st" for c st
    by (simp add: link_def)
  moreover have "link (st\<lparr>isConnected := False, receiveBuffer := []\<rparr>) = link st" by (simp add: link_def)
  ultimately show ?thesis unfolding record_disconnect_def Let_def by (simp only:)
qed

lemma link_schedule_reconnect:
  "link (schedule_reconnect st) =
     (if \<not> userInitiatedDisconnect st \<and> lastHost st \<noteq> [] \<and> reconnectAttempts st < maxReconnectAttempts
      then (sock st, Suc (reconnectAttempts st), Some (min 30000 (1000 * 2 ^ reconnectAttempts st)))
      else link st)"
  by (simp add: schedule_reconnect_def Let_def link_def setStatus_eq)

lemma onDisconnected_link:
  "sock (onDisconnected env st) = sock st \<and>
   (link (onDisconnected env st) = link st \<or>
    reconnectAttempts (onDisconnected env st) = Suc (reconnectAttempts st) \<and>
    reconnectTimer (onDisconnected env st) = Some (min 30000 (1000 * 2 ^ reconnectAttempts st)))"
  using link_schedule_reconnect [of "record_disconnect env st"] link_record_disconnect [of env st]
  unfolding onDisconnected_def link_def by (simp split: if_splits)

lemma onDisconnected_inv:
  assumes "reconnectAttempts st = 0" and "sock st = UnconnectedState" and "reconnect_inv st"
  shows "reconnect_inv (onDisconnected env st)"
  using onDisconnected_link [of env st] assms by (auto simp: reconnect_inv_def link_def)

lemma socket_ops_inv:
  assumes "reconnect_inv st"
  shows "reconnect_inv (socket_abort env st)" and "reconnect_inv (socket_disconnect env st)"
    and "reconnect_inv (socket_connect st)"
proof -
  have "reconnect_inv (onDisconnected env (st\<lparr>sock := UnconnectedState\<rparr>))"
    if "sock st = ConnectedState \<or> sock st = ClosingState"
    using that assms by (intro onDisconnected_inv) (auto simp: reconnect_inv_def)
  then show "reconnect_inv (socket_abort env st)" "reconnect_inv (socket_disconnect env st)"
    using assms by (auto simp: socket_abort_def socket_disconnect_def Let_def reconnect_inv_def)
  show "reconnect_inv (socket_connect st)"
    using assms by (simp add: socket_connect_def reconnect_inv_def)
qed

lemma disconnectFromHost_inv:
  assumes "reconnect_inv st"
  shows "reconnect_inv (disconnectFromHost env st)"
proof -
  let ?st = "(if isReconnecting st then st\<lparr>userInitiatedDisconnect := True, reconnectTimer := None, isReconnecting := False\<rparr>
              else st\<lparr>userInitiatedDisconnect := True, reconnectTimer := None\<rparr>)"
  have "reconnect_inv ?st" using assms by (simp add: reconnect_inv_def)
  then show ?thesis
    using socket_ops_inv(2) [of ?st env] by (auto simp: disconnectFromHost_def Let_def)
qed

lemma receive_packet_inv:
  assumes "reconnect_inv st"
  shows "reconnect_inv (receive_packet env p st)"
proof -
  have frame: "link (receive_frame env p st) = link st"
    by (simp add: receive_frame_def link_def split: option.split)
  have clip: "link (receive_clipboard env p st) = link st"
    by (simp add: receive_clipboard_def Let_def link_def split: option.split)
  have tty: "link (receive_terminal env p st) = link st"
    by (simp add: receive_terminal_def Let_def link_def split: option.split)
  have auth: "reconnect_inv (receive_auth env p st)"
    using assms disconnectFromHost_inv [of "setStatus s st" env for s]
    by (simp add: receive_auth_def split: option.split)
  show ?thesis
    using assms auth reconnect_inv_link [OF frame] reconnect_inv_link [OF clip] reconnect_inv_link [OF tty]
    by (simp add: receive_packet_def)
qed

section \<open>The loop over what arrived\<close>

lemma receive_buffer_onDisconnected: "receiveBuffer (onDisconnected env st) = []"
  by (simp add: onDisconnected_def schedule_reconnect_def record_disconnect_def Let_def setStatus_eq
      addHistoryRecord_def saveConnectionHistory_def)

lemma disconnectFromHost_buffer:
  "receiveBuffer (disconnectFromHost env st) \<in> {receiveBuffer st, []}"
  by (simp add: disconnectFromHost_def socket_disconnect_def Let_def receive_buffer_onDisconnected)

lemma receive_packet_buffer:
  "receiveBuffer (receive_packet env p st) \<in> {receiveBuffer st, []}"
proof -
  have "receiveBuffer (receive_frame env p st) = receiveBuffer st"
    by (simp add: receive_frame_def split: option.split)
  moreover have "receiveBuffer (receive_clipboard env p st) = receiveBuffer st"
    by (simp add: receive_clipboard_def Let_def split: option.split)
  moreover have "receiveBuffer (receive_terminal env p st) = receiveBuffer st"
    by (simp add: receive_terminal_def Let_def split: option.split)
  moreover have "receiveBuffer (receive_auth env p st) \<in> {receiveBuffer st, []}"
    using disconnectFromHost_buffer [of env "setStatus s st" for s]
    by (simp add: receive_auth_def setStatus_eq split: option.split)
  ultimately show ?thesis by (simp add: receive_packet_def)
qed

lemma read_loop_short: "length (receiveBuffer st) < HEADER_SIZE \<Longrightarrow> read_loop env st = Some st"
  by (simp add: read_loop.simps [of env st])

lemma read_loop_skip:
  "HEADER_SIZE \<le> length (receiveBuffer st) \<Longrightarrow> decode (client_host env) (receiveBuffer st) = Inl err \<Longrightarrow>
   read_loop env st = (if is_incomplete err then Some st
                       else read_loop env (st\<lparr>receiveBuffer := drop 1 (receiveBuffer st)\<rparr>))"
  by (simp add: read_loop.simps [of env st] is_incomplete_def)

lemma read_loop_packet:
  assumes "decode (client_host env) (receiveBuffer st) = Inr p" and "length (receiveBuffer st) < 2 ^ 32"
  shows "read_loop env st =
    read_loop env ((receive_packet env p st)\<lparr>receiveBuffer :=
       drop (packet_span p) (receiveBuffer (receive_packet env p st))\<rparr>)"
  using packet_span_le [OF assms(1)] packet_span_ge [of p] assms(1) totalPacketSize_fits [OF assms]
  by (simp add: read_loop.simps [of env st] Let_def)

lemma read_loop_returns:
  "length (receiveBuffer st) < 2 ^ 32 \<Longrightarrow> \<exists>st'. read_loop env st = Some st'"
proof (induction "length (receiveBuffer st)" arbitrary: st rule: less_induct)
  case less
  show ?case
  proof (cases "receiveBuffer st" rule: rap.scan_cases [where H = "client_host env"])
    case short
    then show ?thesis by (simp add: read_loop_short)
  next
    case (wait err)
    then show ?thesis by (simp add: read_loop_skip)
  next
    case (skip err)
    then show ?thesis using less by (simp add: read_loop_skip)
  next
    case (packet p)
    let ?st = "(receive_packet env p st)\<lparr>receiveBuffer :=
       drop (packet_span p) (receiveBuffer (receive_packet env p st))\<rparr>"
    have "length (receiveBuffer ?st) < length (receiveBuffer st)"
      using packet receive_packet_buffer [of env p st] by auto
    then show ?thesis using less read_loop_packet [OF packet(1) less(2)] by simp
  qed
qed

text \<open>When Qt reports the end of a connection later, handling a packet leaves the buffer alone.\<close>

lemma receive_packet_commutes:
  assumes "\<not> closes_at_once env"
  shows "receive_packet env p (st\<lparr>receiveBuffer := b\<rparr>) = (receive_packet env p st)\<lparr>receiveBuffer := b\<rparr>"
proof -
  have frame: "receive_frame env p (st\<lparr>receiveBuffer := b\<rparr>) = (receive_frame env p st)\<lparr>receiveBuffer := b\<rparr>"
    by (simp add: receive_frame_def split: option.split)
  have clip: "receive_clipboard env p (st\<lparr>receiveBuffer := b\<rparr>) = (receive_clipboard env p st)\<lparr>receiveBuffer := b\<rparr>"
    by (simp add: receive_clipboard_def Let_def split: option.split)
  have tty: "receive_terminal env p (st\<lparr>receiveBuffer := b\<rparr>) = (receive_terminal env p st)\<lparr>receiveBuffer := b\<rparr>"
    by (simp add: receive_terminal_def Let_def split: option.split)
  have "disconnectFromHost env (st\<lparr>receiveBuffer := b\<rparr>) = (disconnectFromHost env st)\<lparr>receiveBuffer := b\<rparr>" for st
    using assms by (simp add: disconnectFromHost_def socket_disconnect_def Let_def)
  moreover have "setStatus s (st\<lparr>receiveBuffer := b\<rparr>) = (setStatus s st)\<lparr>receiveBuffer := b\<rparr>" for s st
    by (simp add: setStatus_eq)
  ultimately have "receive_auth env p (st\<lparr>receiveBuffer := b\<rparr>) = (receive_auth env p st)\<lparr>receiveBuffer := b\<rparr>"
    by (simp add: receive_auth_def split: option.split)
  then show ?thesis using frame clip tty by (simp add: receive_packet_def)
qed

lemma receive_packet_keeps_buffer:
  assumes "\<not> closes_at_once env"
  shows "receiveBuffer (receive_packet env p st) = receiveBuffer st"
proof -
  have "receive_packet env p st = (receive_packet env p st)\<lparr>receiveBuffer := receiveBuffer st\<rparr>"
    using receive_packet_commutes [OF assms, of p "receiveBuffer st" st] by simp
  then have "receiveBuffer (receive_packet env p st) =
      receiveBuffer ((receive_packet env p st)\<lparr>receiveBuffer := receiveBuffer st\<rparr>)" by simp
  then show ?thesis by simp
qed

lemma fold_receive_buffer:
  assumes "\<not> closes_at_once env"
  shows "(fold (receive_packet env) ps (st\<lparr>receiveBuffer := b\<rparr>))\<lparr>receiveBuffer := r\<rparr> =
         (fold (receive_packet env) ps st)\<lparr>receiveBuffer := r\<rparr>"
  by (induction ps arbitrary: st) (simp_all add: receive_packet_commutes [OF assms])

lemma read_loop_scan:
  assumes "\<not> closes_at_once env"
  shows "length (receiveBuffer st) < 2 ^ 32 \<Longrightarrow>
    read_loop env st =
      (case rap_scan (client_host env) (receiveBuffer st) of
         (ps, rest) \<Rightarrow> Some ((fold (receive_packet env) ps st)\<lparr>receiveBuffer := rest\<rparr>))"
proof (induction "length (receiveBuffer st)" arbitrary: st rule: less_induct)
  case less
  show ?case
  proof (cases "receiveBuffer st" rule: rap.scan_cases [where H = "client_host env"])
    case short
    then show ?thesis by (simp add: read_loop_short rap.scan_short del: HEADER_SIZE_eq)
  next
    case (wait err)
    then show ?thesis by (simp add: read_loop_skip rap.scan_wait del: HEADER_SIZE_eq)
  next
    case (skip err)
    let ?st = "st\<lparr>receiveBuffer := drop 1 (receiveBuffer st)\<rparr>"
    have "read_loop env ?st = (case rap_scan (client_host env) (receiveBuffer ?st) of
         (ps, rest) \<Rightarrow> Some ((fold (receive_packet env) ps ?st)\<lparr>receiveBuffer := rest\<rparr>))"
      using skip less by (intro less.hyps) auto
    then show ?thesis
      using skip by (simp add: read_loop_skip rap.scan_skip drop_Suc fold_receive_buffer [OF assms]
          del: HEADER_SIZE_eq split: prod.split)
  next
    case (packet p)
    let ?st = "(receive_packet env p st)\<lparr>receiveBuffer := drop (packet_span p) (receiveBuffer st)\<rparr>"
    have "read_loop env st = read_loop env ?st"
      using read_loop_packet [OF packet(1) less(2)] by (simp add: receive_packet_keeps_buffer [OF assms])
    also have "\<dots> = (case rap_scan (client_host env) (receiveBuffer ?st) of
         (ps, rest) \<Rightarrow> Some ((fold (receive_packet env) ps ?st)\<lparr>receiveBuffer := rest\<rparr>))"
      using packet less by (intro less.hyps) auto
    also have "\<dots> = (case rap_scan (client_host env) (receiveBuffer ?st) of
         (ps, rest) \<Rightarrow> Some ((fold (receive_packet env) ps (receive_packet env p st))\<lparr>receiveBuffer := rest\<rparr>))"
      by (simp add: fold_receive_buffer [OF assms] split: prod.split)
    finally show ?thesis
      using packet by (simp add: rap.scan_packet deliver_def del: HEADER_SIZE_eq split: prod.split)
  qed
qed

lemma deliveries_scan:
  assumes "\<not> closes_at_once env"
    and "length (receiveBuffer st) + length (concat pieces) < 2 ^ 32"
  shows "foldl (\<lambda>s c. case s of None \<Rightarrow> None | Some s \<Rightarrow> onReadyRead env c s)
           (read_loop env st) pieces =
         (case rap_scan (client_host env) (receiveBuffer st @ concat pieces) of
            (ps, rest) \<Rightarrow> Some ((fold (receive_packet env) ps st)\<lparr>receiveBuffer := rest\<rparr>))"
  using assms(2)
proof (induction pieces rule: rev_induct)
  case Nil
  then show ?case using read_loop_scan [OF assms(1), of st] by simp
next
  case (snoc c cs)
  obtain ps rest where scan: "rap_scan (client_host env) (receiveBuffer st @ concat cs) = (ps, rest)"
    by (metis prod.collapse)
  obtain qs rest' where scan': "rap_scan (client_host env) (rest @ c) = (qs, rest')" by (metis prod.collapse)
  have "rap_scan (client_host env) (receiveBuffer st @ concat cs @ c) = (ps @ qs, rest')"
    using rap.scan_append [of "client_host env" "receiveBuffer st @ concat cs" c] scan scan'
    by (simp add: deliver_def)
  moreover have "length rest \<le> length (receiveBuffer st @ concat cs)"
    using rap.scan_rest_le [of "client_host env" "receiveBuffer st @ concat cs"] scan by simp
  then have "length (rest @ c) < 2 ^ 32" using snoc.prems by simp
  then have "onReadyRead env c ((fold (receive_packet env) ps st)\<lparr>receiveBuffer := rest\<rparr>) =
      Some ((fold (receive_packet env) (ps @ qs) st)\<lparr>receiveBuffer := rest'\<rparr>)"
    using read_loop_scan [OF assms(1), of "(fold (receive_packet env) ps st)\<lparr>receiveBuffer := rest @ c\<rparr>"] scan'
    by (simp add: onReadyRead_def fold_receive_buffer [OF assms(1)])
  ultimately show ?case using snoc scan by simp
qed

section \<open>Everything a session can go through\<close>

definition new_session :: session where
  "new_session =
     \<lparr>sock = UnconnectedState, sent = [], isConnected = False, renderGated = False,
      statusText = qstr ''Disconnected'', lastConnectedTarget = [], requestedPassword = [],
      receiveBuffer = [], receivedFrames = 0, inputSequence = 0, lastClipboardText = [],
      sys_clipboard = Some [], shown = [], reconnectTimer = None, isReconnecting = False,
      reconnectAttempts = 0, userInitiatedDisconnect = False, lastHost = [], lastPort = 18443,
      connectionHistory = [], saved_history = [], sessionStartTimeMs = 0, audioMuted = False,
      terminalOutput = qstr ''Remote Access Platform PTY Terminal Subsystem v0.3.1'' @ nl @
        qstr ''Connected to host environment (127.0.0.1:18443)'' @ nl @
        qstr ''Type 'help' or any Linux shell command to execute.'' @ nl @ nl @ qstr ''$ '',
      emitted = []\<rparr>"

text \<open>
  The steps of a session: what the user does, and what Qt reports. Qt's documented order is the
  guard of each rule: \<open>connected\<close> and a failed connection attempt come from a connecting socket,
  \<open>disconnected\<close> from one that was connected, the single-shot timer fires once.
\<close>

inductive session_step :: "session \<Rightarrow> session \<Rightarrow> bool" where
  user_connects: "session_step st (connectToHost env h p pw st)"
| user_connects_p2p: "session_step st (connectByP2PId env i pw st)"
| user_disconnects: "session_step st (disconnectFromHost env st)"
| user_cancels: "session_step st (cancelReconnect st)"
| connected: "sock st = ConnectingState \<Longrightarrow> session_step st (onConnected env (st\<lparr>sock := ConnectedState\<rparr>))"
| connect_fails: "sock st = ConnectingState \<Longrightarrow> session_step st (onErrorOccurred e (st\<lparr>sock := UnconnectedState\<rparr>))"
| socket_error: "sock st = ConnectedState \<Longrightarrow> session_step st (onErrorOccurred e st)"
| disconnected: "sock st = ConnectedState \<or> sock st = ClosingState \<Longrightarrow>
    session_step st (onDisconnected env (st\<lparr>sock := UnconnectedState\<rparr>))"
| timer: "reconnectTimer st = Some d \<Longrightarrow> session_step st (attemptReconnect (st\<lparr>reconnectTimer := None\<rparr>))"
| arrived: "onReadyRead env bytes st = Some st' \<Longrightarrow> session_step st st'"
| sends_input: "session_step st (sendInputEvent env t x y b dl k m st)"
| sends_clipboard: "session_step st (sendClipboardText env text st)"
| sends_chat: "session_step st (sendChatMessage env text st)"
| sends_control: "session_step st (sendSessionControlAction env a st)"

inductive_cases session_stepE: "session_step st st'"

lemma read_loop_inv:
  assumes "read_loop env st = Some st'" and "reconnect_inv st"
  shows "reconnect_inv st'"
proof -
  let ?P = "\<lambda>(env :: client_env) (st :: session) (st' :: session). reconnect_inv st \<longrightarrow> reconnect_inv st'"
  have buf: "reconnect_inv (st\<lparr>receiveBuffer := b\<rparr>) = reconnect_inv st" for st b
    by (rule reconnect_inv_link) (simp add: link_def)
  have "?P env st st'"
  proof (rule read_loop.raw_induct [where P = ?P, OF _ assms(1)])
    fix f env st st'
    assume IH: "\<And>env st st'. f env st = Some st' \<Longrightarrow> ?P env st st'"
      and eq: "(if HEADER_SIZE \<le> length (receiveBuffer st) then
        (case decode (client_host env) (receiveBuffer st) of
           Inl err \<Rightarrow>
             if err = IncompleteHeader \<or> err = IncompletePayload then Some st
             else f env (st\<lparr>receiveBuffer := drop 1 (receiveBuffer st)\<rparr>)
         | Inr packet \<Rightarrow>
             let st = receive_packet env packet st
             in f env (st\<lparr>receiveBuffer := drop (totalPacketSize packet) (receiveBuffer st)\<rparr>))
        else Some st) = Some st'"
    show "?P env st st'"
    proof (cases "HEADER_SIZE \<le> length (receiveBuffer st)")
      case True
      then show ?thesis
        using eq IH [of env] receive_packet_inv [of st env] buf
        by (cases "decode (client_host env) (receiveBuffer st)") (auto simp only: Let_def sum.case if_True split: if_splits)
    next
      case False
      then show ?thesis using eq by simp
    qed
  qed
  then show ?thesis using assms(2) by simp
qed

lemma reconnect_inv_updates [simp]:
  "reconnect_inv (st\<lparr>requestedPassword := q\<rparr>) = reconnect_inv st"
  "reconnect_inv (st\<lparr>lastHost := q\<rparr>) = reconnect_inv st"
  "reconnect_inv (st\<lparr>lastPort := port\<rparr>) = reconnect_inv st"
  "reconnect_inv (st\<lparr>userInitiatedDisconnect := u\<rparr>) = reconnect_inv st"
  "reconnect_inv (st\<lparr>lastConnectedTarget := q\<rparr>) = reconnect_inv st"
  "reconnect_inv (st\<lparr>isReconnecting := u\<rparr>) = reconnect_inv st"
  "reconnect_inv (st\<lparr>isConnected := u\<rparr>) = reconnect_inv st"
  "reconnect_inv (st\<lparr>receiveBuffer := b\<rparr>) = reconnect_inv st"
  by (simp_all add: reconnect_inv_def)

lemma connectToHost_inv:
  assumes "reconnect_inv st"
  shows "reconnect_inv (connectToHost env h p pw st)"
proof -
  have "reconnect_inv (if sock st \<noteq> UnconnectedState then socket_abort env st else st)"
    using assms socket_ops_inv(1) by simp
  then show ?thesis
    unfolding connectToHost_def Let_def by (intro socket_ops_inv(3)) simp
qed

lemma onConnected_inv:
  assumes "reconnect_inv st"
  shows "reconnect_inv (onConnected env (st\<lparr>sock := ConnectedState\<rparr>))"
proof -
  let ?st = "st\<lparr>sock := ConnectedState, isConnected := True, receiveBuffer := [], receivedFrames := 0,
     inputSequence := 0, reconnectAttempts := 0, sessionStartTimeMs := now_ms env, isReconnecting := False\<rparr>"
  have "reconnect_inv ?st" using assms by (simp add: reconnect_inv_def)
  moreover have "link (onConnected env (st\<lparr>sock := ConnectedState\<rparr>)) = link ?st"
    unfolding onConnected_def Let_def clear_reconnecting by simp
  ultimately show ?thesis using reconnect_inv_link by metis
qed

lemma session_step_inv:
  assumes "session_step st st'" and "reconnect_inv st"
  shows "reconnect_inv st'"
  using assms
proof (induction rule: session_step.induct)
  case (user_connects_p2p st env i pw)
  then show ?case by (simp add: connectByP2PId_def connectToHost_inv)
next
  case (user_cancels st)
  then show ?case by (simp add: cancelReconnect_def Let_def reconnect_inv_def setStatus_eq)
next
  case (connect_fails st e)
  then show ?case by (simp add: onErrorOccurred_def Let_def reconnect_inv_def setStatus_eq)
next
  case (socket_error st e)
  then show ?case by (simp add: onErrorOccurred_def Let_def)
next
  case (disconnected st env)
  then show ?case by (intro onDisconnected_inv) (auto simp: reconnect_inv_def)
next
  case (timer st d)
  then have "reconnect_inv (st\<lparr>reconnectTimer := None\<rparr>)" by (simp add: reconnect_inv_def)
  then show ?case by (simp add: attemptReconnect_def socket_ops_inv(3))
next
  case (arrived env bytes st st')
  then show ?case using read_loop_inv [of env "st\<lparr>receiveBuffer := receiveBuffer st @ bytes\<rparr>" st']
    by (simp add: onReadyRead_def)
next
  case (sends_input st env t x y b dl k m)
  then show ?case using reconnect_inv_link link_sends(1) by metis
next
  case (sends_clipboard st env msg)
  then show ?case using reconnect_inv_link link_sendClipboardText by metis
next
  case (sends_chat st env msg)
  then show ?case using reconnect_inv_link link_sends(2) by metis
next
  case (sends_control st env a)
  then show ?case using reconnect_inv_link link_sends(3) by metis
qed (simp_all add: connectToHost_inv disconnectFromHost_inv onConnected_inv)

lemma reached_reconnect_inv: "rtranclp session_step new_session st \<Longrightarrow> reconnect_inv st"
proof (induction rule: rtranclp_induct)
  case base
  show ?case by (simp add: reconnect_inv_def new_session_def)
next
  case (step st st')
  then show ?case using session_step_inv by blast
qed

lemma record_disconnect_keeps:
  "userInitiatedDisconnect (record_disconnect env st) = userInitiatedDisconnect st"
  "lastHost (record_disconnect env st) = lastHost st"
  "reconnectTimer (record_disconnect env st) = reconnectTimer st"
  "reconnectAttempts (record_disconnect env st) = reconnectAttempts st"
  "isReconnecting (record_disconnect env st) = isReconnecting st"
  "\<not> isConnected st \<Longrightarrow> connectionHistory (record_disconnect env st) = connectionHistory st"
  by (simp_all add: record_disconnect_def Let_def addHistoryRecord_def saveConnectionHistory_def)

lemma schedule_keeps_history [simp]: "connectionHistory (schedule_reconnect st) = connectionHistory st"
  by (simp add: schedule_reconnect_def Let_def setStatus_eq)

lemma onConnected_eq:
  obtains w where
    "seal_message (client_host env) sessionKey AuthRequest 1 0 (toUtf8 (client_qt env) (requestedPassword st)) = Inr w"
    and "sent (onConnected env st) = sent st @ [w]" and "inputSequence (onConnected env st) = 1"
    and "isConnected (onConnected env st)" and "receiveBuffer (onConnected env st) = []"
    and "sock (onConnected env st) = sock st"
    and "lastConnectedTarget (onConnected env st) = lastConnectedTarget st"
proof -
  obtain w where
    "seal_message (client_host env) sessionKey AuthRequest 1 0 (toUtf8 (client_qt env) (requestedPassword st)) = Inr w"
    by (rule seal_session_ok)
  then show thesis using that by (simp add: onConnected_def Let_def send_sealed_def setStatus_eq)
qed

section \<open>Properties\<close>

definition demo_client :: client_env where
  "demo_client = \<lparr>client_host = x86_64, client_qt = plain_text, now_ms = 1000, now_text = [], now_time = [], history_writable = True,
                  closes_at_once = False, has_frame_provider = True\<rparr>"

text \<open>
  C19: Along every run of a session the reconnect count never exceeds 1 and the reconnect timer is
  never set to anything but one second: connecting resets the count and only a connection that
  was established is reported lost, so neither the backoff's growth nor the limit of five
  attempts is ever reached.
\<close>

theorem reconnect_never_backs_off:
  assumes "rtranclp session_step new_session st"
  shows "reconnectAttempts st \<le> 1 \<and> (reconnectTimer st = None \<or> reconnectTimer st = Some 1000)"
  using reached_reconnect_inv [OF assms] by (auto simp: reconnect_inv_def)

theorem reconnect_never_backs_off_witness:
  "\<exists>st. rtranclp session_step new_session st \<and> reconnectAttempts st = 1 \<and> reconnectTimer st = Some 1000"
proof -
  define s1 where "s1 = connectToHost demo_client (qstr ''h'') 1 [] new_session"
  define s2 where "s2 = onConnected demo_client (s1\<lparr>sock := ConnectedState\<rparr>)"
  define s3 where "s3 = onDisconnected demo_client (s2\<lparr>sock := UnconnectedState\<rparr>)"
  have s1: "sock s1 = ConnectingState" "\<not> userInitiatedDisconnect s1" "lastHost s1 \<noteq> []"
    by (simp_all add: s1_def connectToHost_def Let_def new_session_def setStatus_eq socket_connect_def qstr_def)
  have s2: "sock s2 = ConnectedState" "\<not> userInitiatedDisconnect s2" "lastHost s2 \<noteq> []" "reconnectAttempts s2 = 0"
    using s1 by (simp_all add: s2_def onConnected_def Let_def send_sealed_def setStatus_eq split: sum.split)
  have "reconnectAttempts s3 = 1"
    using s2 link_schedule_reconnect [of "record_disconnect demo_client (s2\<lparr>sock := UnconnectedState\<rparr>)"]
    by (simp add: s3_def onDisconnected_def record_disconnect_keeps link_def maxReconnectAttempts_def)
  moreover have "reconnectTimer s3 = Some 1000"
    using s2 link_schedule_reconnect [of "record_disconnect demo_client (s2\<lparr>sock := UnconnectedState\<rparr>)"]
    by (simp add: s3_def onDisconnected_def record_disconnect_keeps link_def maxReconnectAttempts_def)
  moreover have "session_step new_session s1" unfolding s1_def by (rule user_connects)
  moreover have "session_step s1 s2" unfolding s2_def using s1(1) by (rule connected)
  moreover have "session_step s2 s3" unfolding s3_def using s2(1) by (intro disconnected) simp
  ultimately have "rtranclp session_step new_session s3" and "reconnectAttempts s3 = 1"
    by (meson rtranclp.rtrancl_into_rtrancl rtranclp.rtrancl_refl)+
  then show ?thesis
    using reconnect_never_backs_off [of s3] \<open>reconnectTimer s3 = Some 1000\<close> by blast
qed

text \<open>
  What a lost connection leads to: unless the user asked for it, no host is known or five
  attempts were made, the count goes up by one and the timer is set to 1000 ms doubled for every
  earlier attempt and capped at 30000; in the other cases no timer is set, the target is
  forgotten and the session is disconnected.
\<close>

theorem onDisconnected_schedule:
  "let st' = onDisconnected env st
   in \<not> isConnected st' \<and> receiveBuffer st' = [] \<and>
      (if \<not> userInitiatedDisconnect st \<and> lastHost st \<noteq> [] \<and> reconnectAttempts st < 5
       then reconnectAttempts st' = reconnectAttempts st + 1 \<and> isReconnecting st' \<and>
            reconnectTimer st' = Some (min 30000 (1000 * 2 ^ reconnectAttempts st))
       else reconnectAttempts st' = reconnectAttempts st \<and> \<not> isReconnecting st' \<and>
            reconnectTimer st' = reconnectTimer st \<and> lastConnectedTarget st' = [] \<and>
            statusText st' = qstr ''Disconnected'')"
proof -
  have "\<not> isConnected (record_disconnect env st)" "receiveBuffer (record_disconnect env st) = []"
    by (simp_all add: record_disconnect_def Let_def addHistoryRecord_def saveConnectionHistory_def)
  then show ?thesis
    by (simp add: Let_def onDisconnected_def schedule_reconnect_def record_disconnect_keeps setStatus_eq
        maxReconnectAttempts_def)
qed

text \<open>
  A failed reconnect is the end of reconnecting: when the timer's attempt cannot connect, the
  session keeps showing the attempt as under way, but no timer runs and the socket is idle.
\<close>

theorem failed_reconnect_stalls:
  assumes "isReconnecting st" and "\<not> userInitiatedDisconnect st" and "lastHost st \<noteq> []"
    and "sock st = UnconnectedState"
  shows "let trying = attemptReconnect (st\<lparr>reconnectTimer := None\<rparr>);
             failed = onErrorOccurred err (trying\<lparr>sock := UnconnectedState\<rparr>)
         in sock trying = ConnectingState \<and> sock failed = UnconnectedState \<and>
            isReconnecting failed \<and> reconnectTimer failed = None \<and> statusText failed = statusText trying"
  using assms
  by (simp add: Let_def attemptReconnect_def onErrorOccurred_def setStatus_eq socket_connect_def)

theorem failed_reconnect_stalls_witness:
  "isReconnecting (onErrorOccurred []
     ((attemptReconnect (new_session\<lparr>isReconnecting := True, lastHost := [1], reconnectTimer := None\<rparr>))
        \<lparr>sock := UnconnectedState\<rparr>))"
  using failed_reconnect_stalls [of "new_session\<lparr>isReconnecting := True, lastHost := [1]\<rparr>" "[]"]
  by (simp add: Let_def new_session_def)

text \<open>
  C20: After the user disconnects, nothing reconnects: the timer is stopped, and the loss of the
  connection, reported at once or later, sets none and a timer already due does nothing.
\<close>

theorem user_disconnect_is_final:
  "let st' = disconnectFromHost env st
   in reconnectTimer st' = None \<and> \<not> isReconnecting st' \<and>
      reconnectTimer (onDisconnected env' (st'\<lparr>sock := UnconnectedState\<rparr>)) = None \<and>
      attemptReconnect st' = st'"
proof -
  let ?s = "st\<lparr>userInitiatedDisconnect := True, reconnectTimer := None, isReconnecting := False\<rparr>"
  have quiet: "reconnectTimer (onDisconnected env st) = None \<and> \<not> isReconnecting (onDisconnected env st) \<and>
      userInitiatedDisconnect (onDisconnected env st)"
    if "userInitiatedDisconnect st" "reconnectTimer st = None" for env st
    using that by (simp add: onDisconnected_def schedule_reconnect_def record_disconnect_keeps setStatus_eq)
  have stop: "(if isReconnecting s then s\<lparr>isReconnecting := False\<rparr> else s) = s\<lparr>isReconnecting := False\<rparr>" for s
    by (cases s) simp
  have "disconnectFromHost env st = (if sock ?s \<noteq> UnconnectedState then socket_disconnect env ?s else ?s)"
    by (simp only: disconnectFromHost_def Let_def stop)
  then have "reconnectTimer (disconnectFromHost env st) = None \<and> \<not> isReconnecting (disconnectFromHost env st) \<and>
      userInitiatedDisconnect (disconnectFromHost env st)"
    using quiet [of "?s\<lparr>sock := UnconnectedState\<rparr>" env] by (simp add: socket_disconnect_def)
  then show ?thesis
    using quiet [of "(disconnectFromHost env st)\<lparr>sock := UnconnectedState\<rparr>" env']
    by (simp add: Let_def attemptReconnect_def)
qed

text \<open>
  The history keeps the newest record first and at most the 50 newest, and what is saved is
  what is kept, if the file can be written, and else what was saved before.
\<close>

theorem history_newest_fifty:
  "\<exists>rec. h_target rec = target \<and> h_status rec = status \<and> h_reason rec = reason \<and>
     connectionHistory (addHistoryRecord env target status dur reason st) =
       rec # take 49 (connectionHistory st) \<and>
     saved_history (addHistoryRecord env target status dur reason st) =
       (if history_writable env then connectionHistory (addHistoryRecord env target status dur reason st)
        else saved_history st) \<and>
     length (connectionHistory (addHistoryRecord env target status dur reason st)) \<le> 50"
  by (simp add: addHistoryRecord_def Let_def saveConnectionHistory_def trim_history_take take_Cons')

text \<open>
  When Qt reports an error before the disconnect, as it does for a connection the remote side
  closed, the session is no longer marked connected when the disconnect comes, and the
  connection leaves no record in the history.
\<close>

theorem remote_close_unrecorded:
  "connectionHistory (onDisconnected env ((onErrorOccurred err st)\<lparr>sock := UnconnectedState\<rparr>)) =
   connectionHistory st"
proof -
  have "\<not> isConnected ((onErrorOccurred err st)\<lparr>sock := UnconnectedState\<rparr>)"
    "connectionHistory ((onErrorOccurred err st)\<lparr>sock := UnconnectedState\<rparr>) = connectionHistory st"
    by (simp_all add: onErrorOccurred_def Let_def setStatus_eq)
  then show ?thesis using record_disconnect_keeps(6) by (simp add: onDisconnected_def)
qed



text \<open>
  The image of an opened frame reads \<open>width * height * 4\<close> bytes whatever the decompressed size:
  every frame whose pixels decompress to something shorter, but not empty, is shown beyond the
  end of its buffer.
\<close>

theorem frame_image_reads_past_end:
  assumes "decrypted = mem_store H w @ mem_store H h @ mem_store H (rawSize :: 32 word) @ packed"
    and "0 < w" and "0 < h" and "qUncompress Q packed \<noteq> []"
  shows "frame_image H Q decrypted = Some \<lparr>img_width = w, img_height = h, img_pixels = qUncompress Q packed\<rparr> \<and>
    (image_in_bounds \<lparr>img_width = w, img_height = h, img_pixels = qUncompress Q packed\<rparr> \<longleftrightarrow>
       unat w * unat h * 4 \<le> length (qUncompress Q packed))"
  using assms
  by (simp add: frame_image_def Let_def image_in_bounds_def layout_simps)

theorem frame_image_reads_past_end_witness:
  "\<exists>img. frame_image x86_64 plain_text
     (mem_store x86_64 (2 :: 32 word) @ mem_store x86_64 (2 :: 32 word) @ mem_store x86_64 (4 :: 32 word) @
       [0, 7]) = Some img \<and> \<not> image_in_bounds img"
  using frame_image_reads_past_end [OF refl, of 2 2 plain_text "[0, 7]" x86_64 4]
  by (simp add: plain_text_def)

end
