(* ===== verification/Remote_Session.thy ===== *)
theory Remote_Session
  imports Agent Session_Client
begin

text \<open>
  The client and the agent together: what one sends, the other does. The operations of the client
  (\<open>SessionClient::sendInputEvent\<close>, \<open>sendClipboardText\<close>, \<open>sendSessionControlAction\<close>,
  \<open>onConnected\<close>) feed the agent's \<open>readyRead\<close> handler (\<open>apps/agent/src/main.cpp\<close>), and the frames of
  the agent feed the client's \<open>onReadyRead\<close>. The specification of the control direction is a
  queue of remote operations performed in order (\<open>perform\<close>); runs interleave sends and deliveries.
\<close>

section \<open>The two ends\<close>

definition paired :: "client_env \<Rightarrow> agent_env \<Rightarrow> bool" where
  "paired ce ae \<longleftrightarrow> agent_host ae = client_host ce \<and> agent_qt ae = client_qt ce \<and> session_key ae = sessionKey"

lemma pairedD [dest]:
  "paired ce ae \<Longrightarrow> agent_host ae = client_host ce"
  "paired ce ae \<Longrightarrow> agent_qt ae = client_qt ce"
  "paired ce ae \<Longrightarrow> session_key ae = sessionKey"
  by (simp_all add: paired_def)

lemma open_payload: "open_message H key p = Some d \<Longrightarrow> payload p \<noteq> []"
  by (auto simp: open_message_def decryptPayload_def TAG_SIZE_def split: if_splits)

section \<open>Remote operations\<close>

datatype remote_op = Press InputEvent | Paste QString | Control "32 word"

definition remote_event ::
    "16 word \<Rightarrow> 32 word \<Rightarrow> 32 word \<Rightarrow> 32 word \<Rightarrow> 32 word \<Rightarrow> 32 word \<Rightarrow> InputEvent" where
  "remote_event type x y button delta keycode =
     \<lparr>ev_type = event_type_cast type, ev_x = x, ev_y = y, ev_button = button, ev_delta = delta,
      ev_keycode = keycode, ev_modifiers = 0\<rparr>"

fun perform :: "agent_env \<Rightarrow> remote_op \<Rightarrow> agent_state \<Rightarrow> agent_state" where
  "perform ae (Press e) a =
     (if has_input_backend ae \<and> \<not> isLoopback a then a\<lparr>injected := injected a @ [e]\<rparr> else a)"
| "perform ae (Paste t) a =
     (if toUtf8 (agent_qt ae) t \<noteq> [] \<and> has_clipboard ae
      then a\<lparr>clipboard_texts := clipboard_texts a @ [fromUtf8 (agent_qt ae) (toUtf8 (agent_qt ae) t)]\<rparr>
      else a)"
| "perform ae (Control n) a = (if n = 2 then a\<lparr>lock_commands := lock_commands a + 1\<rparr> else a)"

fun op_type :: "remote_op \<Rightarrow> PayloadType" where
  "op_type (Press e) = PayloadType.InputEvent"
| "op_type (Paste t) = ClipboardData"
| "op_type (Control n) = SessionControl"

text \<open>The plaintext of an operation, read back the way the handler reads it.\<close>

lemma poke_gap:
  "length a \<le> off \<Longrightarrow> off - length a \<le> k \<Longrightarrow>
   poke (a @ replicate k z) off bs =
     (a @ replicate (off - length a) z @ bs) @ replicate (k - (off - length a) - length bs) z"
  by (simp add: poke_def)

lemma input_plaintext_layout:
  "input_plaintext H ty x y b d k =
     mem_store H ty @ replicate 2 0 @ mem_store H x @ mem_store H y @ mem_store H b @ mem_store H d @ mem_store H k"
proof -
  have start: "poke (replicate 24 0) 0 (mem_store H ty) = mem_store H ty @ replicate 22 0"
    by (simp add: poke_def)
  show ?thesis
    by (simp add: input_plaintext_def Let_def start poke_gap del: append_assoc)
qed

lemma read_input_plaintext:
  "read_input_event H (input_plaintext H ty x y b d k) = remote_event ty x y b d k"
  by (simp add: read_input_event_def remote_event_def input_plaintext_layout layout_simps)

lemma length_input_plaintext [simp]: "length (input_plaintext H ty x y b d k) = 24"
  by (simp add: input_plaintext_layout)

definition op_plain :: "client_env \<Rightarrow> remote_op \<Rightarrow> bytes" where
  "op_plain ce op =
     (case op of
        Press e \<Rightarrow> input_plaintext (client_host ce) (event_type_value (ev_type e)) (ev_x e) (ev_y e)
                    (ev_button e) (ev_delta e) (ev_keycode e)
      | Paste t \<Rightarrow> toUtf8 (client_qt ce) t
      | Control n \<Rightarrow> poke (replicate 4 0) 0 (mem_store (client_host ce) n))"

text \<open>What a client can ask for: an event is one the wire can carry.\<close>

fun op_ok :: "client_env \<Rightarrow> remote_op \<Rightarrow> bool" where
  "op_ok ce (Press e) \<longleftrightarrow> ev_modifiers e = 0 \<and> event_type_cast (event_type_value (ev_type e)) = ev_type e"
| "op_ok ce (Paste t) \<longleftrightarrow> length (toUtf8 (client_qt ce) t) + TAG_SIZE < 2 ^ 32"
| "op_ok ce (Control n) \<longleftrightarrow> True"

lemma op_type_wf: "wf_payload_type (op_type op)"
  by (cases op) simp_all

lemma op_plain_fits: "op_ok ce op \<Longrightarrow> length (op_plain ce op) + TAG_SIZE < 2 ^ 32"
  by (cases op) (simp_all add: op_plain_def length_poke TAG_SIZE_def)

lemma remote_event_ok [simp]: "op_ok ce (Press (remote_event t x y b d k))"
  by (simp add: remote_event_def event_type_value_cast)

text \<open>The handler performs an operation's packet, once the connection is authenticated.\<close>

lemma handle_op:
  assumes "paired ce ae" and "op_ok ce op" and "authenticated a"
    and "ptype (header p) = op_type op" and "payload p \<noteq> []"
    and "open_message (agent_host ae) (session_key ae) p = Some (op_plain ce op)"
  shows "handle ae p a = perform ae op a"
proof (cases op)
  case (Press e)
  have "read_input_event (agent_host ae) (op_plain ce op) = e"
    using assms(1,2) Press by (cases e) (auto simp: op_plain_def read_input_plaintext remote_event_def)
  moreover have "length (op_plain ce op) = 24" using Press by (simp add: op_plain_def)
  ultimately show ?thesis
    using assms(3-) Press by (simp add: handle_def handleClientPacket_def handle_input_def)
next
  case (Paste t)
  then show ?thesis
    using assms by (auto simp: handle_def handleClientPacket_def handle_clipboard_def op_plain_def)
next
  case (Control n)
  have "mem_load (agent_host ae) (peek (op_plain ce op) 0 4) = n"
    using assms(1) Control by (auto simp: op_plain_def layout_simps)
  moreover have "length (op_plain ce op) = 4" using Control by (simp add: op_plain_def length_poke)
  ultimately show ?thesis
    using assms(3-) Control by (simp add: handle_def handleClientPacket_def handle_control_def Let_def)
qed

lemma perform_keeps [simp]:
  "authenticated (perform ae op a) = authenticated a"
  "isLoopback (perform ae op a) = isLoopback a"
  by (cases op; simp)+

section \<open>Sending and delivering operations\<close>

definition op_sealed :: "client_env \<Rightarrow> remote_op \<Rightarrow> bytes \<Rightarrow> bool" where
  "op_sealed ce op w \<longleftrightarrow> op_ok ce op \<and>
     (\<exists>seq. seal_message (client_host ce) sessionKey (op_type op) seq 0 (op_plain ce op) = Inr w)"

lemma segment_ops:
  assumes "paired ce ae" and "list_all2 (op_sealed ce) ops ws" and "authenticated a"
  shows "fold (handle ae) (segment_packets (agent_host ae) (concat ws)) a = fold (perform ae) ops a"
  using assms(2,3)
proof (induction ops ws arbitrary: a rule: list_all2_induct)
  case (Cons op ops w ws)
  obtain seq where seal: "seal_message (agent_host ae) (session_key ae) (op_type op) seq 0 (op_plain ce op) = Inr w"
    and ok: "op_ok ce op"
    using Cons.hyps(1) assms(1) by (auto simp: op_sealed_def paired_def)
  obtain p where p: "\<And>d. segment_packets (agent_host ae) (w @ d) = p # segment_packets (agent_host ae) d"
    "ptype (header p) = op_type op" "open_message (agent_host ae) (session_key ae) p = Some (op_plain ce op)"
    "payload p \<noteq> []"
    using segment_message [OF seal op_type_wf op_plain_fits [OF ok]] by blast
  have "handle ae p a = perform ae op a"
    by (rule handle_op [OF assms(1) ok Cons.prems p(2,4,3)])
  then show ?case using Cons p(1) by simp
qed simp

lemma deliver_ops:
  assumes "paired ce ae" and "list_all2 (op_sealed ce) ops ws" and "authenticated a"
    and "length (concat ws) < 2 ^ 32"
  shows "agent_readyRead ae (concat ws) a = Some (Inr (fold (perform ae) ops a))"
  using segment_ops [OF assms(1-3)] assms(4) by (simp add: agent_readyRead_def ready_loop_handles)

text \<open>
  Runs: the client sends, in any order and number, and the agent is given what was sent and not yet
  delivered, any number of whole messages at a time.
\<close>

inductive remote_run ::
    "client_env \<Rightarrow> agent_env \<Rightarrow> session \<Rightarrow> agent_state \<Rightarrow> session \<Rightarrow> agent_state \<Rightarrow> remote_op list \<Rightarrow> nat \<Rightarrow> bool"
  for ce ae c0 a0 where
  begin_run: "remote_run ce ae c0 a0 c0 a0 [] 0"
| press: "remote_run ce ae c0 a0 c a ops k \<Longrightarrow>
    remote_run ce ae c0 a0 (sendInputEvent ce t x y b d kc m c) a (ops @ [Press (remote_event t x y b d kc)]) k"
| paste: "remote_run ce ae c0 a0 c a ops k \<Longrightarrow> op_ok ce (Paste t) \<Longrightarrow>
    remote_run ce ae c0 a0 (sendClipboardText ce t c) a
      (if t = lastClipboardText c then ops else ops @ [Paste t]) k"
| control: "remote_run ce ae c0 a0 c a ops k \<Longrightarrow>
    remote_run ce ae c0 a0 (sendSessionControlAction ce n c) a (ops @ [Control n]) k"
| delivery: "remote_run ce ae c0 a0 c a ops k \<Longrightarrow>
    msgs = take n (drop k (sent c)) \<Longrightarrow> length (concat msgs) < 2 ^ 32 \<Longrightarrow>
    agent_readyRead ae (concat msgs) a = Some (Inr a') \<Longrightarrow>
    remote_run ce ae c0 a0 c a' ops (k + length msgs)"

definition run_inv :: "client_env \<Rightarrow> agent_env \<Rightarrow> agent_state \<Rightarrow> session \<Rightarrow> agent_state \<Rightarrow> remote_op list \<Rightarrow> nat \<Rightarrow> bool" where
  "run_inv ce ae a0 c a ops k \<longleftrightarrow>
     sock c = ConnectedState \<and> list_all2 (op_sealed ce) ops (sent c) \<and> k \<le> length ops \<and>
     a = fold (perform ae) (take k ops) a0"

lemma perform_fold_keeps [simp]: "authenticated (fold (perform ae) ops a) = authenticated a"
  by (induction ops arbitrary: a) simp_all

lemma sent_op:
  assumes "op_ok ce op"
  obtains w where "sent (send_sealed ce (op_type op) (op_plain ce op) c) = sent c @ [w]" and "op_sealed ce op w"
proof -
  obtain w where "seal_message (client_host ce) sessionKey (op_type op) (inputSequence c + 1) 0 (op_plain ce op) = Inr w"
    and "send_sealed ce (op_type op) (op_plain ce op) c = c\<lparr>inputSequence := inputSequence c + 1, sent := sent c @ [w]\<rparr>"
    by (rule send_sealed_eq)
  then show thesis using that assms by (auto simp: op_sealed_def)
qed

lemma send_op:
  assumes "list_all2 (op_sealed ce) ops (sent c)" and "op_ok ce op"
  shows "list_all2 (op_sealed ce) (ops @ [op]) (sent (send_sealed ce (op_type op) (op_plain ce op) c))"
proof -
  obtain w where "sent (send_sealed ce (op_type op) (op_plain ce op) c) = sent c @ [w]" "op_sealed ce op w"
    using sent_op [OF assms(2)] .
  then show ?thesis using list_all2_appendI [OF assms(1), of "[op]" "[w]"] by simp
qed

lemma sealed_control_short: "op_sealed ce (Control n) w \<Longrightarrow> length w < 2 ^ 32"
  using length_sealed by (fastforce simp: op_sealed_def op_plain_def length_poke TAG_SIZE_def)

lemma sock_send_sealed [simp]: "sock (send_sealed ce t p c) = sock c"
  by (simp add: send_sealed_def Let_def split: sum.split)

lemma run_inv_send:
  assumes "run_inv ce ae a0 c a ops k" and "op_ok ce op"
  shows "run_inv ce ae a0 (send_sealed ce (op_type op) (op_plain ce op) c) a (ops @ [op]) k"
  using assms send_op [OF _ assms(2)] by (simp add: run_inv_def)

lemma run_inv_delivery:
  assumes "paired ce ae" and "authenticated a0" and "run_inv ce ae a0 c a ops k"
    and "msgs = take n (drop k (sent c))" and "length (concat msgs) < 2 ^ 32"
  shows "\<exists>a'. agent_readyRead ae (concat msgs) a = Some (Inr a') \<and> run_inv ce ae a0 c a' ops (k + length msgs)"
proof -
  have ops: "list_all2 (op_sealed ce) ops (sent c)" and a: "a = fold (perform ae) (take k ops) a0"
    using assms(3) by (simp_all add: run_inv_def)
  have "list_all2 (op_sealed ce) (take n (drop k ops)) msgs"
    unfolding assms(4) by (intro list_all2_takeI list_all2_dropI ops)
  then have "agent_readyRead ae (concat msgs) a = Some (Inr (fold (perform ae) (take n (drop k ops)) a))"
    using assms(1,2,5) a by (intro deliver_ops) simp_all
  moreover have "take (k + length msgs) ops = take k ops @ take n (drop k ops)"
    using list_all2_lengthD [OF ops] by (simp add: assms(4) take_add min_def)
  moreover have "k + length msgs \<le> length ops"
    using list_all2_lengthD [OF ops] assms(3) by (auto simp: run_inv_def assms(4))
  ultimately show ?thesis using assms(3) by (simp add: run_inv_def a)
qed

lemma sends_are_ops:
  assumes "sock c = ConnectedState"
  shows "sendInputEvent ce t x y b d kc m c =
           send_sealed ce (op_type (Press (remote_event t x y b d kc))) (op_plain ce (Press (remote_event t x y b d kc))) c"
    and "sendSessionControlAction ce n c = send_sealed ce (op_type (Control n)) (op_plain ce (Control n)) c"
    and "text \<noteq> lastClipboardText c \<Longrightarrow>
         sendClipboardText ce text c =
           send_sealed ce (op_type (Paste text)) (op_plain ce (Paste text)) (c\<lparr>lastClipboardText := text\<rparr>)"
    and "text = lastClipboardText c \<Longrightarrow> sendClipboardText ce text c = c"
  using assms
  by (simp_all add: sendInputEvent_def sendSessionControlAction_def sendClipboardText_def op_plain_def
      remote_event_def event_type_value_cast)

lemma remote_run_inv:
  assumes "paired ce ae" and "sock c0 = ConnectedState" and "sent c0 = []" and "authenticated a0"
    and "remote_run ce ae c0 a0 c a ops k"
  shows "run_inv ce ae a0 c a ops k"
  using assms(5)
proof (induction rule: remote_run.induct)
  case begin_run
  then show ?case using assms(2,3) by (simp add: run_inv_def)
next
  case (press c a ops k t x y b d kc m)
  then have "sock c = ConnectedState" by (simp add: run_inv_def)
  then show ?case using run_inv_send [OF press.IH remote_event_ok] by (simp add: sends_are_ops(1))
next
  case (paste c a ops k t)
  then have "sock c = ConnectedState" by (simp add: run_inv_def)
  moreover have "run_inv ce ae a0 (c\<lparr>lastClipboardText := t\<rparr>) a ops k"
    using paste.IH by (simp add: run_inv_def)
  ultimately show ?case
    using paste.IH run_inv_send [OF _ paste.hyps(2)]
    by (cases "t = lastClipboardText c") (simp_all add: sends_are_ops(3,4))
next
  case (control c a ops k n)
  then have "sock c = ConnectedState" by (simp add: run_inv_def)
  moreover have "op_ok ce (Control n)" by simp
  ultimately show ?case using run_inv_send [OF control.IH] by (simp only: sends_are_ops(2))
next
  case (delivery c a ops k msgs n a')
  then show ?case using run_inv_delivery [OF assms(1,4) delivery.IH delivery.hyps(2,3)] by auto
qed

section \<open>Logging in\<close>

text \<open>A reply of the agent as the client's scan sees it: one packet and nothing left over.\<close>

lemma scan_message:
  assumes "seal_message H key type seq ts plain = Inr w" and "wf_payload_type type"
    and "length plain + TAG_SIZE < 2 ^ 32"
  obtains p where "rap_scan H w = ([p], [])" and "ptype (header p) = type"
    and "open_message H key p = Some plain"
proof -
  obtain p where p: "decode H (w @ []) = Inr p" "packet_meta p = (type, seq, ts)"
    "open_message H key p = Some plain" "packet_span p = length w"
    using open_seal [OF assms] by blast
  then have "rap_scan H (w @ []) = ([p], [])"
    using rap.scan_packet [of H "w @ []" p] rap.scan_short [of "[]" H] by (simp add: deliver_def)
  then show thesis using that p by (simp add: packet_meta_def)
qed

lemma read_reply:
  assumes "\<not> closes_at_once ce" and "receiveBuffer c = []" and "length w < 2 ^ 32"
    and "rap_scan (client_host ce) w = ([p], [])"
  shows "onReadyRead ce w c = Some ((receive_packet ce p c)\<lparr>receiveBuffer := []\<rparr>)"
  using read_loop_scan [OF assms(1), of "c\<lparr>receiveBuffer := w\<rparr>"] assms(2-)
    receive_packet_commutes [OF assms(1), of p w c]
  by (simp add: onReadyRead_def)

definition verified_text :: "session \<Rightarrow> QString" where
  "verified_text c = qstr ''Connected to '' @
     (if lastConnectedTarget c = [] then qstr ''Remote Desk'' else lastConnectedTarget c) @
     qstr '' '' @ [0x2014] @ qstr '' Session Verified''"

lemma receive_auth_reply:
  assumes "ptype (header p) = AuthResponse"
    and "open_message (client_host ce) sessionKey p = Some [code]"
  shows "receive_packet ce p c =
    (if code = 0 then setStatus (verified_text c) c
     else disconnectFromHost ce (setStatus (qstr ''Authentication Failed: Invalid Remote Password'') c))"
  using assms open_payload [OF assms(2)] by (simp add: receive_packet_def receive_auth_def verified_text_def)

text \<open>Only the bytes delivered count, not how they were cut.\<close>

lemma deliveries_cut:
  assumes "\<not> closes_at_once ce" and "receiveBuffer c = []" and "concat ps = concat qs" and "length (concat qs) < 2 ^ 32"
  shows "foldl (\<lambda>s x. case s of None \<Rightarrow> None | Some s \<Rightarrow> onReadyRead ce x s) (Some c) ps =
         foldl (\<lambda>s x. case s of None \<Rightarrow> None | Some s \<Rightarrow> onReadyRead ce x s) (Some c) qs"
proof -
  have "read_loop ce c = Some c" using assms(2) by (simp add: read_loop_short)
  then show ?thesis
    using deliveries_scan [OF assms(1), of c ps] deliveries_scan [OF assms(1), of c qs] assms(2-) by simp
qed

lemma login_exchange_sized:
  assumes "paired ce ae" and "\<not> closes_at_once ce" and "sock c = ConnectedState"
    and "toUtf8 (client_qt ce) (requestedPassword c) = pw" and "pw \<noteq> []" and "length pw + TAG_SIZE + 28 < 2 ^ 32"
  obtains w reply where
    "sent (onConnected ce c) = sent c @ [w]"
    and "agent_readyRead ae w a = Some (Inr (a\<lparr>authenticated := password_accepted ae pw,
           written := written a @ [reply],
           disconnect_requested := (if password_accepted ae pw then disconnect_requested a else True)\<rparr>))"
    and "onReadyRead ce reply (onConnected ce c) = Some
           (if password_accepted ae pw then setStatus (verified_text c) (onConnected ce c)
            else disconnectFromHost ce
              (setStatus (qstr ''Authentication Failed: Invalid Remote Password'') (onConnected ce c)))"
    and "length reply = 45"
proof -
  obtain w where w: "seal_message (client_host ce) sessionKey AuthRequest 1 0 pw = Inr w"
    and c': "sent (onConnected ce c) = sent c @ [w]" "receiveBuffer (onConnected ce c) = []"
      "lastConnectedTarget (onConnected ce c) = lastConnectedTarget c"
    using onConnected_eq [of ce c] assms(4) by metis
  have env: "agent_host ae = client_host ce" "session_key ae = sessionKey"
    using assms(1) by (simp_all add: paired_def)
  obtain p where p: "agent_readyRead ae w a = Some (Inr (handle ae p a))" "ptype (header p) = AuthRequest"
    "sequenceNumber (header p) = 1" "payload p \<noteq> []"
    "open_message (agent_host ae) (session_key ae) p = Some pw"
    using ready_message [of ae AuthRequest 1 0 pw w a] w assms(6) env by auto
  obtain reply where reply: "seal_message (client_host ce) sessionKey AuthResponse 1 0
        [if password_accepted ae pw then 0 else 1] = Inr reply"
    "handle ae p a = a\<lparr>authenticated := password_accepted ae pw, written := written a @ [reply],
       disconnect_requested := (if password_accepted ae pw then disconnect_requested a else True)\<rparr>"
    using handle_auth_message [OF p(2,4) assms(5) p(5)] p(3) env by metis
  have short: "length [if password_accepted ae pw then 0 else 1 :: byte] + TAG_SIZE < 2 ^ 32"
    by (simp add: TAG_SIZE_def)
  obtain q where q: "rap_scan (client_host ce) reply = ([q], [])" "ptype (header q) = AuthResponse"
    "open_message (client_host ce) sessionKey q = Some [if password_accepted ae pw then 0 else 1]"
    using scan_message [OF reply(1) _ short] by auto
  have size: "length reply = 45" using length_sealed [OF reply(1) short] by (simp add: TAG_SIZE_def)
  then have "length reply < 2 ^ 32" by simp
  then have "onReadyRead ce reply (onConnected ce c) =
      Some ((receive_packet ce q (onConnected ce c))\<lparr>receiveBuffer := []\<rparr>)"
    by (rule read_reply [OF assms(2) c'(2) _ q(1)])
  also have "receiveBuffer (receive_packet ce q (onConnected ce c)) = []"
    by (simp add: receive_packet_keeps_buffer [OF assms(2)] c'(2))
  then have "(receive_packet ce q (onConnected ce c))\<lparr>receiveBuffer := []\<rparr> = receive_packet ce q (onConnected ce c)"
    by (metis (no_types, lifting) session.surjective session.update_convs(8) session.select_convs(8))
  finally show thesis
    using that [of w reply] size c'(1,3) p(1) reply(2) receive_auth_reply [OF q(2,3), of "onConnected ce c"]
    by (simp add: verified_text_def)
qed

lemma login_exchange:
  assumes "paired ce ae" and "\<not> closes_at_once ce" and "sock c = ConnectedState"
    and "toUtf8 (client_qt ce) (requestedPassword c) = pw" and "pw \<noteq> []" and "length pw + TAG_SIZE + 28 < 2 ^ 32"
  obtains w reply where
    "sent (onConnected ce c) = sent c @ [w]"
    and "agent_readyRead ae w a = Some (Inr (a\<lparr>authenticated := password_accepted ae pw,
           written := written a @ [reply],
           disconnect_requested := (if password_accepted ae pw then disconnect_requested a else True)\<rparr>))"
    and "onReadyRead ce reply (onConnected ce c) = Some
           (if password_accepted ae pw then setStatus (verified_text c) (onConnected ce c)
            else disconnectFromHost ce
              (setStatus (qstr ''Authentication Failed: Invalid Remote Password'') (onConnected ce c)))"
  by (rule login_exchange_sized [OF assms]) (rule that)

section \<open>Frames\<close>

fun send_frames :: "agent_env \<Rightarrow> FrameData list \<Rightarrow> agent_state \<Rightarrow> crypto_error + agent_state" where
  "send_frames ae [] a = Inr a"
| "send_frames ae (f # fs) a =
     (case on_frame ae f [(True, a)] of
        Inl e \<Rightarrow> Inl e
      | Inr cs \<Rightarrow> send_frames ae fs (snd (hd cs)))"

definition frame_ok :: "qt \<Rightarrow> FrameData \<Rightarrow> bool" where
  "frame_ok Q f \<longleftrightarrow> 0 < fwidth f \<and> 0 < fheight f \<and> pixelData f \<noteq> [] \<and>
     length (qCompress Q (pixelData f)) + 12 + TAG_SIZE < 2 ^ 32"

definition frame_shown :: "FrameData \<Rightarrow> shown_image" where
  "frame_shown f = \<lparr>img_width = fwidth f, img_height = fheight f, img_pixels = pixelData f\<rparr>"

lemma frame_plaintext_layout:
  assumes "length (qCompress Q (pixelData f)) + 12 < 2 ^ 32"
  shows "frame_plaintext H Q f =
    mem_store H (fwidth f) @ mem_store H (fheight f) @
    mem_store H (of_nat (length (pixelData f)) :: 32 word) @ qCompress Q (pixelData f)"
proof -
  let ?c = "qCompress Q (pixelData f)"
  have "unat (of_nat (length ?c) :: 32 word) = length ?c"
    using assms by (intro unat_of_nat32) simp
  moreover have "unat (12 + of_nat (length ?c) :: 32 word) = 12 + length ?c"
    using assms unat_of_nat32 [of "12 + length ?c"] by simp
  ultimately show ?thesis by (simp add: frame_plaintext_def Let_def poke_def)
qed

lemma frame_plaintext_shown:
  assumes "frame_ok Q f" and "qUncompress Q (qCompress Q (pixelData f)) = pixelData f"
  shows "frame_image H Q (frame_plaintext H Q f) = Some (frame_shown f)"
    and "12 \<le> length (frame_plaintext H Q f)"
    and "length (frame_plaintext H Q f) + TAG_SIZE < 2 ^ 32"
proof -
  have layout: "frame_plaintext H Q f =
      mem_store H (fwidth f) @ mem_store H (fheight f) @
      mem_store H (of_nat (length (pixelData f)) :: 32 word) @ qCompress Q (pixelData f)"
    using assms(1) by (intro frame_plaintext_layout) (simp add: frame_ok_def)
  show "frame_image H Q (frame_plaintext H Q f) = Some (frame_shown f)"
    using assms by (simp add: layout frame_image_def Let_def layout_simps frame_ok_def frame_shown_def)
  show "12 \<le> length (frame_plaintext H Q f)" by (simp add: layout)
  show "length (frame_plaintext H Q f) + TAG_SIZE < 2 ^ 32"
    using assms(1) by (simp add: layout frame_ok_def)
qed

lemma send_frames_writes:
  assumes "length (session_key ae) = KEY_SIZE" and "authenticated a"
  shows "\<exists>ws. send_frames ae fs a = Inr (a\<lparr>written := written a @ ws\<rparr>) \<and>
              map (frame_message ae) fs = map Inr ws"
  using assms(2)
proof (induction fs arbitrary: a)
  case Nil
  then show ?case by (auto intro: exI [of _ "[]"])
next
  case (Cons f fs)
  obtain w where w: "frame_message ae f = Inr w"
    using seal_message_ok [OF assms(1), of "agent_host ae" "frame_plaintext (agent_host ae) (agent_qt ae) f"
        "frameNumber f" FrameHeader "timestampUs f div 1000"]
    by (auto simp: frame_message_def)
  obtain ws where "send_frames ae fs (a\<lparr>written := written a @ [w]\<rparr>) =
      Inr (a\<lparr>written := (written a @ [w]) @ ws\<rparr>)" and "map (frame_message ae) fs = map Inr ws"
    using Cons.IH [of "a\<lparr>written := written a @ [w]\<rparr>"] Cons.prems by auto
  then show ?case
    using w Cons.prems by (intro exI [of _ "w # ws"]) (simp add: on_frame_def broadcast_def)
qed

text \<open>What the scan makes of frame messages, and what the client makes of that.\<close>

lemma fold_frames:
  assumes "map (\<lambda>p. (ptype (header p), open_message (client_host ce) sessionKey p)) ps =
           map (\<lambda>f. (FrameHeader, Some (frame_plaintext (client_host ce) (client_qt ce) f))) fs"
    and "\<And>f. f \<in> set fs \<Longrightarrow> frame_ok (client_qt ce) f"
    and "\<And>b. qUncompress (client_qt ce) (qCompress (client_qt ce) b) = b"
    and "\<not> renderGated c" and "has_frame_provider ce"
  shows "fold (receive_packet ce) ps c =
    c\<lparr>shown := shown c @ map frame_shown fs, receivedFrames := receivedFrames c + of_nat (length fs)\<rparr>"
  using assms(1,2,4)
proof (induction fs arbitrary: ps c)
  case (Cons f fs)
  then obtain p qs where ps: "ps = p # qs" "ptype (header p) = FrameHeader"
    "open_message (client_host ce) sessionKey p = Some (frame_plaintext (client_host ce) (client_qt ce) f)"
    by auto
  have "receive_packet ce p c = c\<lparr>shown := shown c @ [frame_shown f], receivedFrames := receivedFrames c + 1\<rparr>"
    using ps open_payload [OF ps(3)] frame_plaintext_shown [OF Cons.prems(2) assms(3)] Cons.prems(3) assms(5)
    by (simp add: receive_packet_def receive_frame_def)
  then show ?case using Cons ps by (simp add: add.assoc)
qed simp

lemma frame_messages_scanned:
  assumes "map (frame_message ae) fs = map Inr ws"
    and "paired ce ae" and "\<And>f. f \<in> set fs \<Longrightarrow> frame_ok (client_qt ce) f"
    and "\<And>b. qUncompress (client_qt ce) (qCompress (client_qt ce) b) = b"
  shows "\<exists>ps. rap_scan (client_host ce) (concat ws) = (ps, []) \<and>
    map (\<lambda>p. (ptype (header p), open_message (client_host ce) sessionKey p)) ps =
    map (\<lambda>f. (FrameHeader, Some (frame_plaintext (client_host ce) (client_qt ce) f))) fs"
  using assms(1,3)
proof (induction fs arbitrary: ws)
  case Nil
  then show ?case using rap.hdr_pos by (simp add: rap.scan_short del: HEADER_SIZE_eq)
next
  case (Cons f fs)
  then obtain w vs where ws: "ws = w # vs" "frame_message ae f = Inr w" "map (frame_message ae) fs = map Inr vs"
    by auto
  have seal: "seal_message (client_host ce) sessionKey FrameHeader (frameNumber f) (timestampUs f div 1000)
      (frame_plaintext (client_host ce) (client_qt ce) f) = Inr w"
    using ws(2) assms(2) by (simp add: frame_message_def paired_def)
  obtain p where p: "decode (client_host ce) (w @ concat vs) = Inr p"
    "packet_meta p = (FrameHeader, frameNumber f, timestampUs f div 1000)" "packet_span p = length w"
    "open_message (client_host ce) sessionKey p = Some (frame_plaintext (client_host ce) (client_qt ce) f)"
    using open_seal [OF seal _ frame_plaintext_shown(3) [OF _ assms(4)]] Cons.prems(2) by auto
  obtain ps where "rap_scan (client_host ce) (concat vs) = (ps, [])"
    "map (\<lambda>p. (ptype (header p), open_message (client_host ce) sessionKey p)) ps =
     map (\<lambda>f. (FrameHeader, Some (frame_plaintext (client_host ce) (client_qt ce) f))) fs"
    using Cons.IH [OF ws(3)] Cons.prems(2) by auto
  then show ?case
    using p by (simp add: ws(1) rap.scan_packet deliver_def packet_meta_def del: HEADER_SIZE_eq)
qed

lemma frames_shown:
  assumes "map (frame_message ae) fs = map Inr ws"
    and "paired ce ae" and "\<And>f. f \<in> set fs \<Longrightarrow> frame_ok (client_qt ce) f"
    and "\<And>b. qUncompress (client_qt ce) (qCompress (client_qt ce) b) = b"
    and "\<not> closes_at_once ce" and "\<not> renderGated c" and "has_frame_provider ce" and "receiveBuffer c = []"
    and "concat pieces = concat ws" and "length (concat ws) < 2 ^ 32"
  shows "foldl (\<lambda>s x. case s of None \<Rightarrow> None | Some s \<Rightarrow> onReadyRead ce x s) (Some c) pieces =
    Some (c\<lparr>shown := shown c @ map frame_shown fs, receivedFrames := receivedFrames c + of_nat (length fs)\<rparr>)"
proof -
  obtain ps where ps: "rap_scan (client_host ce) (concat ws) = (ps, [])"
    "map (\<lambda>p. (ptype (header p), open_message (client_host ce) sessionKey p)) ps =
     map (\<lambda>f. (FrameHeader, Some (frame_plaintext (client_host ce) (client_qt ce) f))) fs"
    using frame_messages_scanned [OF assms(1-4)] by blast
  have "read_loop ce c = Some c" using assms(8) by (simp add: read_loop_short)
  moreover have "c\<lparr>receiveBuffer := []\<rparr> = c" using assms(8) by (cases c) simp
  ultimately show ?thesis
    using deliveries_scan [OF assms(5), of c pieces] fold_frames [OF ps(2) assms(3,4,6,7)] ps(1) assms(8-)
    by simp
qed

lemma length_frame_messages:
  assumes "map (frame_message ae) fs = map Inr ws" and "\<And>f. f \<in> set fs \<Longrightarrow> frame_ok (agent_qt ae) f"
  shows "length (concat ws) = (\<Sum>f\<leftarrow>fs. length (qCompress (agent_qt ae) (pixelData f)) + 56)"
  using assms
proof (induction fs arbitrary: ws)
  case (Cons f fs)
  then obtain w vs where ws: "ws = w # vs" "frame_message ae f = Inr w" "map (frame_message ae) fs = map Inr vs"
    by auto
  let ?n = "length (qCompress (agent_qt ae) (pixelData f))"
  have fits: "?n + 12 < 2 ^ 32" "?n + 12 + TAG_SIZE < 2 ^ 32"
    using Cons.prems(2) [of f] by (simp_all add: frame_ok_def)
  have len: "length (frame_plaintext (agent_host ae) (agent_qt ae) f) = ?n + 12"
    by (simp add: frame_plaintext_layout [OF fits(1)])
  have "length w = ?n + 56"
    using length_sealed [OF ws(2) [unfolded frame_message_def]] fits(2) by (simp add: len TAG_SIZE_def)
  then show ?case using Cons.IH [OF ws(3)] Cons.prems(2) by (simp add: ws(1))
qed simp

end
