(* ===== verification/Desk_Identity.thy ===== *)
theory Desk_Identity
  imports Capture
begin

text \<open>
  The 9-digit desk number a host is known by: the first three bytes of a SHA-256 digest of its
  hardware names, reduced and cut into groups of three digits. The same lines are in the client's
  constructor (\<open>apps/client/src/SessionClient.cpp\<close>) and in the mobile interface
  (\<open>libs/common/src/rap_mobile_c_api.cpp\<close>). The digest is Qt's, and an argument here.
\<close>

section \<open>The number\<close>

definition desk_number :: "bytes \<Rightarrow> 32 word" where
  "desk_number digest =
     (let num = push_bit 16 (ucast (digest ! 0)) OR push_bit 8 (ucast (digest ! 1)) OR ucast (digest ! 2)
      in num mod 900000000 + 100000000)"

definition group_digits :: "string \<Rightarrow> string" where
  "group_digits s = take 3 s @ '' '' @ take 3 (drop 3 s) @ '' '' @ drop (length s - 3) s"

definition desk_id :: "bytes \<Rightarrow> string" where
  "desk_id digest = group_digits (decimal (unat (desk_number digest)))"

section \<open>Its range\<close>

lemma desk_number_eq:
  "unat (desk_number digest) =
     unat (digest ! 0) * 65536 + unat (digest ! 1) * 256 + unat (digest ! 2) + 100000000"
proof -
  let ?a = "digest ! 0" and ?b = "digest ! 1" and ?c = "digest ! 2"
  let ?n = "push_bit 16 (ucast ?a) OR push_bit 8 (ucast ?b) OR ucast ?c :: 32 word"
  have bounds: "unat ?a < 256" "unat ?b < 256" "unat ?c < 256"
    using unat_bound [of ?a] unat_bound [of ?b] unat_bound [of ?c] by simp_all
  have disj: "push_bit 8 (ucast ?b) AND ucast ?c = (0 :: 32 word)"
    "push_bit 16 (ucast ?a) AND (push_bit 8 (ucast ?b) OR ucast ?c) = (0 :: 32 word)"
    by (rule bit_word_eqI; auto simp: bit_and_iff bit_or_iff bit_push_bit_iff bit_ucast_iff
        dest: bit_imp_le_length)+
  have "?n = push_bit 16 (ucast ?a) + (push_bit 8 (ucast ?b) + ucast ?c)"
    using disj by (simp add: disjunctive_add_eq_or)
  also have "\<dots> = of_nat (unat ?a * 65536 + unat ?b * 256 + unat ?c)"
    by (simp add: push_bit_eq_mult mult.commute)
  finally have "unat ?n = unat ?a * 65536 + unat ?b * 256 + unat ?c"
    using bounds unat_of_nat32 [of "unat ?a * 65536 + unat ?b * 256 + unat ?c"] by (simp only:) simp
  moreover have "desk_number digest = ?n mod 900000000 + 100000000" by (simp add: desk_number_def)
  ultimately show ?thesis
    using bounds by (simp only: unat_plus_if_size unat_mod) (simp add: word_size)
qed

section \<open>Its digits\<close>

definition digits_value :: "string \<Rightarrow> nat" where
  "digits_value s = foldl (\<lambda>v c. 10 * v + (of_char c - 48)) 0 s"

lemma digit_char: "k < 10 \<Longrightarrow> ''0123456789'' ! k \<in> set ''0123456789''"
  by (rule nth_mem) simp

lemma digit_value: "k < 10 \<Longrightarrow> of_char (''0123456789'' ! k) = 48 + k"
  by (auto simp: less_Suc_eq numeral_eq_Suc)

lemma digits_value_decimal: "digits_value (decimal n) = n"
proof (induction n rule: decimal.induct)
  case (1 n)
  then show ?case
    by (cases "n < 10") (simp_all add: decimal.simps [of n] digits_value_def digit_value)
qed

lemma decimal_inject: "decimal m = decimal n \<longleftrightarrow> m = n"
  by (metis digits_value_decimal)

lemma set_decimal: "set (decimal n) \<subseteq> set ''0123456789''"
proof (induction n rule: decimal.induct)
  case (1 n)
  then show ?case
    using digit_char [of n] digit_char [of "n mod 10"]
    by (cases "n < 10") (simp_all add: decimal.simps [of n])
qed

lemma length_decimal: "10 ^ k \<le> n \<Longrightarrow> n < 10 ^ Suc k \<Longrightarrow> length (decimal n) = Suc k"
proof (induction k arbitrary: n)
  case 0
  then show ?case by (simp add: decimal.simps)
next
  case (Suc k)
  have "10 ^ k \<le> n div 10" "n div 10 < 10 ^ Suc k" using Suc.prems by simp_all
  moreover have "\<not> n < 10" using Suc.prems(1) one_le_power [of "10 :: nat" k] by (simp only: power_Suc) linarith
  ultimately show ?case using Suc.IH by (simp add: decimal.simps [of n])
qed

lemma decimal_nonempty: "decimal n \<noteq> []"
  by (simp add: decimal.simps [of n])

lemma hd_decimal: "10 ^ k \<le> n \<Longrightarrow> hd (decimal n) = hd (decimal (n div 10 ^ k))"
proof (induction k)
  case (Suc k)
  have "10 ^ k \<le> n" using Suc.prems by simp
  moreover have "\<not> n div 10 ^ k < 10" using Suc.prems by (simp add: div_less_iff_less_mult)
  ultimately show ?case
    using Suc.IH decimal.simps [of "n div 10 ^ k"] decimal_nonempty
    by (simp add: div_mult2_eq [symmetric] mult.commute)
qed simp

lemma desk_number_range: "100000000 \<le> unat (desk_number d)" "unat (desk_number d) < 116777216"
  using unat_bound [of "d ! 0"] unat_bound [of "d ! 1"] unat_bound [of "d ! 2"]
  by (simp_all add: desk_number_eq)

lemma base_256_digit:
  fixes x y c d :: nat
  assumes "x * 256 + c = y * 256 + d" and "c < 256" "d < 256"
  shows "x = y \<and> c = d"
  using arg_cong [OF assms(1), of "\<lambda>n. n div 256"] arg_cong [OF assms(1), of "\<lambda>n. n mod 256"] assms(2,3)
  by simp

lemma desk_number_inject:
  "desk_number d = desk_number e \<longleftrightarrow> d ! 0 = e ! 0 \<and> d ! 1 = e ! 1 \<and> d ! 2 = e ! 2"
proof
  have small: "unat (b :: byte) < 256" for b using unat_bound [of b] by simp
  assume "desk_number d = desk_number e"
  then have "(unat (d ! 0) * 256 + unat (d ! 1)) * 256 + unat (d ! 2) =
      (unat (e ! 0) * 256 + unat (e ! 1)) * 256 + unat (e ! 2)"
    using desk_number_eq [of d] desk_number_eq [of e] by simp
  from base_256_digit [OF this small small]
  have "unat (d ! 0) * 256 + unat (d ! 1) = unat (e ! 0) * 256 + unat (e ! 1)" and c: "d ! 2 = e ! 2"
    by (simp_all add: word_unat_eq_iff)
  from base_256_digit [OF this(1) small small]
  show "d ! 0 = e ! 0 \<and> d ! 1 = e ! 1 \<and> d ! 2 = e ! 2"
    by (simp add: word_unat_eq_iff c)
qed (simp add: desk_number_def)

lemma desk_digits:
  obtains s where "desk_id d = take 3 s @ '' '' @ take 3 (drop 3 s) @ '' '' @ drop 6 s"
    and "s = decimal (unat (desk_number d))" and "length s = 9" and "set s \<subseteq> set ''0123456789''" and "hd s = CHR ''1''"
proof -
  let ?n = "unat (desk_number d)"
  have len: "length (decimal ?n) = 9"
    using length_decimal [of 8 ?n] desk_number_range [of d] by simp
  have "?n div 10 ^ 8 = 1"
    using desk_number_range [of d] by (intro div_nat_eqI) simp_all
  moreover have "decimal 1 = ''1''" by (subst decimal.simps) simp
  ultimately have "hd (decimal ?n) = CHR ''1''"
    using hd_decimal [of 8 ?n] desk_number_range [of d] by simp
  then show thesis
    using that len set_decimal by (simp add: desk_id_def group_digits_def)
qed

lemma length_desk_id: "length (desk_id d) = 11"
  by (rule desk_digits [of d]) simp

lemma desk_id_inject: "desk_id d = desk_id e \<longleftrightarrow> desk_number d = desk_number e"
proof
  assume eq: "desk_id d = desk_id e"
  have split: "s = take 3 s @ take 3 (drop 3 s) @ drop 6 s" for s :: string
    using append_take_drop_id [of 3 "drop 3 s"] by simp
  obtain s where s: "desk_id d = take 3 s @ '' '' @ take 3 (drop 3 s) @ '' '' @ drop 6 s"
    "s = decimal (unat (desk_number d))" "length s = 9" by (rule desk_digits)
  obtain t where t: "desk_id e = take 3 t @ '' '' @ take 3 (drop 3 t) @ '' '' @ drop 6 t"
    "t = decimal (unat (desk_number e))" "length t = 9" by (rule desk_digits)
  have "take 3 s = take 3 t \<and> take 3 (drop 3 s) = take 3 (drop 3 t) \<and> drop 6 s = drop 6 t"
    using eq s t by simp
  then have "s = t" using split [of s] split [of t] by metis
  then show "desk_number d = desk_number e" using s t by (simp add: decimal_inject word_unat_eq_iff)
qed (simp add: desk_id_def)

text \<open>
  C36: A desk number is eleven characters, three groups of three digits, and always begins with 1: of
  the 900 million numbers only 2^24 are given out, and two hosts share one exactly when the first
  three bytes of their digests agree.
\<close>

theorem desk_id_format:
  "length (desk_id d) = 11 \<and> desk_id d ! 0 = CHR ''1'' \<and> desk_id d ! 3 = CHR '' '' \<and> desk_id d ! 7 = CHR '' '' \<and>
   set (desk_id d) \<subseteq> set ''0123456789 '' \<and>
   (desk_id d = desk_id e \<longleftrightarrow> d ! 0 = e ! 0 \<and> d ! 1 = e ! 1 \<and> d ! 2 = e ! 2)"
proof -
  obtain s where s: "desk_id d = take 3 s @ '' '' @ take 3 (drop 3 s) @ '' '' @ drop 6 s"
    "length s = 9" "set s \<subseteq> set ''0123456789''" "hd s = CHR ''1''" by (rule desk_digits)
  moreover have "s ! 0 = hd s" using s(2) by (cases s) simp_all
  ultimately have first: "desk_id d ! 0 = CHR ''1''"
    by (simp add: nth_append)
  have shape: "length (desk_id d) = 11" "desk_id d ! 3 = CHR '' ''" "desk_id d ! 7 = CHR '' ''"
    using s(2) by (simp_all add: s(1) nth_append)
  have "set (desk_id d) \<subseteq> insert (CHR '' '') (set s)"
    by (auto simp: s(1) dest: in_set_takeD in_set_dropD)
  also have "\<dots> \<subseteq> insert (CHR '' '') (set ''0123456789'')"
    by (rule insert_mono [OF s(3)])
  also have "\<dots> \<subseteq> set ''0123456789 ''" by simp
  finally have "set (desk_id d) \<subseteq> set ''0123456789 ''" .
  then show ?thesis
    using first shape by (simp only: desk_id_inject desk_number_inject simp_thms)
qed

end
