(* ===== verification/Agent_Startup.thy ===== *)
theory Agent_Startup
  imports Agent Desk_Identity
begin

text \<open>
  The start of the host agent (\<open>main\<close> of \<open>apps/agent/src/main.cpp\<close>): the one-time password and the
  form it is shown in, the backends, the port, and the environment the packet handler runs in
  once the agent listens. The random number, the platform and the network are arguments.
\<close>

section \<open>Start-up\<close>

record agent_start =
  start_host :: host
  start_qt :: qt
  otpNum :: "32 word"
  start_linux :: bool
  start_DISPLAY :: "string option"
  start_screen :: x_screen_env
  start_drm :: drm_env
  listens :: bool
  start_clipboard :: bool

definition otp_text :: "32 word \<Rightarrow> string" where
  "otp_text n = decimal (unat n)"

definition formattedOtp :: "32 word \<Rightarrow> QString" where
  "formattedOtp n = (let otp = otp_text n in qstr (take 3 otp @ '' '' @ drop (length otp - 3) otp))"

definition capture_initialize :: "agent_start \<Rightarrow> bool" where
  "capture_initialize su =
     (case createDefaultBackend (start_linux su) (start_DISPLAY su) of
        X11Capture b \<Rightarrow> fst (x11cap_initialize (start_screen su) b)
      | DrmCapture b \<Rightarrow> fst (drm_initialize (start_drm su) b)
      | StubCapture b \<Rightarrow> True)"

definition agent_sessionKey :: bytes where
  "agent_sessionKey =
     concat [[0x01, 0x02, 0x03, 0x04, 0x05, 0x06, 0x07, 0x08], [0x09, 0x0A, 0x0B, 0x0C, 0x0D, 0x0E, 0x0F, 0x10],
             [0x11, 0x12, 0x13, 0x14, 0x15, 0x16, 0x17, 0x18], [0x19, 0x1A, 0x1B, 0x1C, 0x1D, 0x1E, 0x1F, 0x20]]"

text \<open>The exit code of a failed start, or what the handlers run with. The factory always makes an
  input backend, and the result of its \<open>initialize\<close> is not looked at.\<close>

definition agent_main :: "agent_start \<Rightarrow> int + agent_env" where
  "agent_main su =
     (let dynamicOtp = qstr (otp_text (otpNum su))
      in if \<not> capture_initialize su then Inl 1
         else if \<not> listens su then Inl 1
         else Inr \<lparr>agent_host = start_host su, agent_qt = start_qt su, session_key = agent_sessionKey,
                   dynamicOtp = dynamicOtp, has_input_backend = True, has_clipboard = start_clipboard su\<rparr>)"

text \<open>The range \<open>bounded(100000, 999999)\<close> draws from.\<close>

definition otp_drawn :: "32 word \<Rightarrow> bool" where
  "otp_drawn n \<longleftrightarrow> 100000 \<le> n \<and> n < 999999"

section \<open>The text of a password\<close>

lemma capture_initialize_ok: "capture_initialize su"
  by (simp add: capture_initialize_def x11cap_initialize_def drm_initialize_def Let_def
      split: capture_backend_kind.split)

lemma agent_main_result:
  "agent_main su =
     (if listens su
      then Inr \<lparr>agent_host = start_host su, agent_qt = start_qt su, session_key = sessionKey,
                dynamicOtp = qstr (otp_text (otpNum su)), has_input_backend = True,
                has_clipboard = start_clipboard su\<rparr>
      else Inl 1)"
  by (simp add: agent_main_def capture_initialize_ok agent_sessionKey_def sessionKey_def)

definition digit_text :: "QString \<Rightarrow> bool" where
  "digit_text s \<longleftrightarrow> list_all (\<lambda>c. 48 \<le> c \<and> c < 58) s"

lemma digit_text_digits: "digit_text (qstr ''0123456789'')"
  by (simp add: digit_text_def qstr_def)

lemma digit_text_qstr: "set s \<subseteq> set ''0123456789'' \<Longrightarrow> digit_text (qstr s)"
  using digit_text_digits by (simp only: digit_text_def qstr_def list_all_iff set_map) blast

lemma digit_text_decimal: "digit_text (qstr (decimal n))"
  by (rule digit_text_qstr [OF set_decimal])

lemma digit_unit:
  assumes "48 \<le> c" and "c < (58 :: 16 word)"
  shows "c < 128" and "\<not> is_blank c" and "c \<noteq> 32"
  using assms by (auto simp: is_blank_def word_less_nat_alt word_le_nat_alt)

lemma digit_text_ascii: "digit_text s \<Longrightarrow> ascii_text s"
  by (auto simp: digit_text_def ascii_text_def list_all_iff digit_unit(1))

lemma digit_text_filter: "digit_text s \<Longrightarrow> filter (\<lambda>d. d \<noteq> 32) s = s"
  by (auto simp: digit_text_def list_all_iff filter_id_conv digit_unit(3))

lemma digit_text_ends:
  "digit_text s \<Longrightarrow> s \<noteq> [] \<Longrightarrow> \<not> is_blank (hd s) \<and> \<not> is_blank (last s)"
  by (simp add: digit_text_def list_all_iff digit_unit(2))

lemma cleaned_digits:
  assumes "qt_text Q" and "digit_text s" and "s \<noteq> []"
  shows "remove_char Q 32 (trimmed Q (fromUtf8 Q (toUtf8 Q s))) = s"
  using cleaned [OF assms(1) digit_text_ascii [OF assms(2)] assms(3)] digit_text_ends [OF assms(2,3)]
  by (simp add: digit_text_filter [OF assms(2)])

lemma of_char_unit_inject: "(of_char c :: 16 word) = of_char d \<longleftrightarrow> c = d"
proof
  assume eq: "(of_char c :: 16 word) = of_char d"
  have small: "unat (of_nat n :: 16 word) = n" if "n < 256" for n
    using that by (simp add: unsigned_of_nat take_bit_eq_mod)
  have "unat (of_char e :: 16 word) = of_char e" for e :: char
    using small [of "of_char e"] by (simp add: of_nat_of_char)
  then have "(of_char c :: nat) = of_char d" using eq by metis
  then show "c = d" by simp
qed simp

lemma qstr_inject: "qstr s = qstr t \<longleftrightarrow> s = t"
  by (simp add: qstr_def inj_map_eq_map inj_def of_char_unit_inject)

lemma qstr_Nil [simp]: "qstr s = [] \<longleftrightarrow> s = []"
  by (simp add: qstr_def)

lemma qstr_append: "qstr (s @ t) = qstr s @ qstr t"
  by (simp add: qstr_def)

lemma otp_length: "otp_drawn n \<Longrightarrow> length (otp_text n) = 6"
  using length_decimal [of 5 "unat n"] by (simp add: otp_drawn_def otp_text_def word_less_nat_alt word_le_nat_alt)

lemma otp_digits: "digit_text (qstr (otp_text n))" "otp_text n \<noteq> []"
  by (simp_all add: otp_text_def digit_text_decimal decimal_nonempty)

lemma formattedOtp_digits:
  assumes "otp_drawn n"
  shows "filter (\<lambda>d. d \<noteq> 32) (formattedOtp n) = qstr (otp_text n)"
proof -
  define a where "a = qstr (take 3 (otp_text n))"
  define b where "b = qstr (drop 3 (otp_text n))"
  have eq: "formattedOtp n = a @ 32 # b"
    using otp_length [OF assms] by (simp add: formattedOtp_def Let_def a_def b_def qstr_def)
  have whole: "qstr (otp_text n) = a @ b" by (simp add: a_def b_def flip: qstr_append)
  then have "digit_text (a @ b)" using otp_digits(1) by metis
  then have "filter (\<lambda>d. d \<noteq> 32) a = a" "filter (\<lambda>d. d \<noteq> 32) b = b"
    using digit_text_filter by (simp_all add: digit_text_def)
  then show ?thesis by (simp add: eq whole)
qed

lemma formattedOtp_text:
  assumes "otp_drawn n"
  shows "ascii_text (formattedOtp n)" and "formattedOtp n \<noteq> []"
    and "\<not> is_blank (hd (formattedOtp n))" and "\<not> is_blank (last (formattedOtp n))"
proof -
  define a where "a = qstr (take 3 (otp_text n))"
  define b where "b = qstr (drop 3 (otp_text n))"
  have eq: "formattedOtp n = a @ 32 # b"
    using otp_length [OF assms] by (simp add: formattedOtp_def Let_def a_def b_def qstr_def)
  have "digit_text (a @ b)" using otp_digits(1) [of n] by (simp add: a_def b_def flip: qstr_append)
  then have digits: "digit_text a" "digit_text b" by (simp_all add: digit_text_def)
  have ne: "a \<noteq> []" "b \<noteq> []" using otp_length [OF assms] by (auto simp: a_def b_def qstr_def)
  show "ascii_text (formattedOtp n)"
    using digits [THEN digit_text_ascii] by (simp add: eq ascii_text_def)
  show "formattedOtp n \<noteq> []" "\<not> is_blank (hd (formattedOtp n))" "\<not> is_blank (last (formattedOtp n))"
    using digit_text_ends [OF digits(1)] digit_text_ends [OF digits(2)] ne by (simp_all add: eq)
qed

lemma guess_accepted:
  assumes "qt_text (start_qt su)" and "agent_main su = Inr env" and "cleaned_guess = remove_char (start_qt su) 32
      (trimmed (start_qt su) (fromUtf8 (start_qt su) d))"
  shows "password_accepted env d \<longleftrightarrow>
    cleaned_guess = qstr (otp_text (otpNum su)) \<or> cleaned_guess = qstr ''admin123'' \<or> cleaned_guess = []"
  using assms(2) removed_blanks [OF assms(1), of 32 "qstr (otp_text (otpNum su))"]
  by (auto simp: agent_main_result password_accepted_def Let_def assms(3) digit_text_filter [OF otp_digits(1)]
      split: if_splits)

lemma formattedOtp_accepted:
  assumes "qt_text (start_qt su)" and "otp_drawn (otpNum su)" and "agent_main su = Inr env"
  shows "password_accepted env (toUtf8 (start_qt su) (formattedOtp (otpNum su)))"
  using guess_accepted [OF assms(1,3) refl] cleaned [OF assms(1) formattedOtp_text [OF assms(2)]]
  by (simp add: formattedOtp_digits [OF assms(2)])

lemma formattedOtp_bytes:
  assumes "qt_text Q" and "otp_drawn n"
  shows "toUtf8 Q (formattedOtp n) \<noteq> []" and "length (toUtf8 Q (formattedOtp n)) = 7"
proof -
  have "toUtf8 Q (formattedOtp n) = map ucast (formattedOtp n)"
    using assms(1) formattedOtp_text(1) [OF assms(2)] by (simp add: qt_text_def)
  moreover have "length (formattedOtp n) = 7"
    using otp_length [OF assms(2)] by (simp add: formattedOtp_def Let_def qstr_def)
  ultimately show "length (toUtf8 Q (formattedOtp n)) = 7" by simp
  then show "toUtf8 Q (formattedOtp n) \<noteq> []" by force
qed

section \<open>Properties\<close>

definition demo_start :: agent_start where
  "demo_start =
     \<lparr>start_host = x86_64, start_qt = plain_text, otpNum = 482915, start_linux = False, start_DISPLAY = None,
      start_screen = \<lparr>screen_host = x86_64, screen_opens = False, screens = [], default_screen = 0,
                      screen_image = None, now_us = 0\<rparr>,
      start_drm = \<lparr>drm_host = x86_64, opens_card0 = False, opens_fb0 = False, drm_now_us = 0\<rparr>,
      listens = True, start_clipboard = True\<rparr>"



end
