(* ===== verification/Agent_Server.thy ===== *)
theory Agent_Server
  imports Agent
begin

text \<open>
  The running agent (\<open>main\<close> of \<open>apps/agent/src/main.cpp\<close> after it listens): all connections at once, the
  capture thread that seals frames and posts them to the main thread's event queue, and the
  main thread that runs what was posted, accepts, reads and removes connections. The handlers are
  those of \<open>Agent\<close>; the steps interleave as Qt's event loop and the capture thread allow.
  The capture thread's look at the list of clients, which the code does without a lock, is taken as one step.
\<close>

section \<open>State\<close>

text \<open>A client's socket: whether it is open, the peer it came from, and the state its handlers keep.
  \<open>handled\<close> records the packets handled and \<open>sent_frames\<close> the frames sent, for the statements only.\<close>

record server_client =
  client_peer :: peer
  is_open :: bool
  conn :: agent_state
  handled :: "Packet list"

record server =
  clients :: "server_client list"
  posted :: "bytes list"
  sent_frames :: "bytes list"

definition server_start :: server where
  "server_start = \<lparr>clients = [], posted = [], sent_frames = []\<rparr>"

section \<open>Steps\<close>

definition server_accept :: "agent_env \<Rightarrow> peer \<Rightarrow> server \<Rightarrow> server" where
  "server_accept env a s =
     s\<lparr>clients := clients s @ [\<lparr>client_peer = a, is_open = True, conn = newConnection (agent_qt env) a, handled = []\<rparr>]\<rparr>"

definition server_read :: "agent_env \<Rightarrow> nat \<Rightarrow> bytes \<Rightarrow> server \<Rightarrow> (crypto_error + server) option" where
  "server_read env i arrived s =
     (let c = clients s ! i
      in case agent_readyRead env arrived (conn c) of
           None \<Rightarrow> None
         | Some (Inl e) \<Rightarrow> Some (Inl e)
         | Some (Inr st) \<Rightarrow>
             Some (Inr (s\<lparr>clients := (clients s)[i := c\<lparr>conn := st,
                            handled := handled c @ segment_packets (agent_host env) arrived\<rparr>]\<rparr>)))"

definition server_capture :: "agent_env \<Rightarrow> FrameData \<Rightarrow> server \<Rightarrow> crypto_error + server" where
  "server_capture env frame s =
     (if clients s = [] then Inr s
      else case frame_message env frame of
             Inl e \<Rightarrow> Inl e
           | Inr message \<Rightarrow> Inr (s\<lparr>posted := posted s @ [message]\<rparr>))"

definition send_to_client :: "bytes \<Rightarrow> server_client \<Rightarrow> server_client" where
  "send_to_client message c =
     (if is_open c \<and> authenticated (conn c)
      then c\<lparr>conn := (conn c)\<lparr>written := written (conn c) @ [message]\<rparr>\<rparr> else c)"

definition server_run_posted :: "server \<Rightarrow> server" where
  "server_run_posted s =
     (case posted s of
        [] \<Rightarrow> s
      | message # rest \<Rightarrow> s\<lparr>clients := map (send_to_client message) (clients s), posted := rest,
                            sent_frames := sent_frames s @ [message]\<rparr>)"

definition server_disconnected :: "nat \<Rightarrow> server \<Rightarrow> server" where
  "server_disconnected i s = s\<lparr>clients := take i (clients s) @ drop (Suc i) (clients s)\<rparr>"

text \<open>Deliveries of 4 GiB and more are left out: \<open>agent_readyRead\<close> need not return on them.\<close>

inductive server_step :: "agent_env \<Rightarrow> server \<Rightarrow> server \<Rightarrow> bool" for env where
  accept: "server_step env s (server_accept env a s)"
| read: "i < length (clients s) \<Longrightarrow> is_open (clients s ! i) \<Longrightarrow> length arrived < 2 ^ 32 \<Longrightarrow>
    server_read env i arrived s = Some (Inr s') \<Longrightarrow> server_step env s s'"
| captured: "server_capture env f s = Inr s' \<Longrightarrow> server_step env s s'"
| run_posted: "server_step env s (server_run_posted s)"
| closing: "i < length (clients s) \<Longrightarrow>
    server_step env s (s\<lparr>clients := (clients s)[i := (clients s ! i)\<lparr>is_open := False\<rparr>]\<rparr>)"
| disconnected: "i < length (clients s) \<Longrightarrow> server_step env s (server_disconnected i s)"

inductive_cases server_stepE: "server_step env s s'"

section \<open>What is written to a connection\<close>

definition auth_reply :: "agent_env \<Rightarrow> bytes \<Rightarrow> bool" where
  "auth_reply env w \<longleftrightarrow>
     (\<exists>seq code. seal_message (agent_host env) (session_key env) AuthResponse seq 0 [code] = Inr w)"

lemma handle_writes:
  "\<exists>ws. written (handle env p st) = written st @ ws \<and> list_all (auth_reply env) ws"
proof (cases "ptype (header p) = AuthRequest \<and> payload p \<noteq> []")
  case True
  then have "handleClientPacket env p st = handle_auth env p st" by (simp add: handleClientPacket_def)
  then show ?thesis
    using handler_handle [of env p st]
    by (auto simp: handle_auth_def Let_def auth_reply_def split: option.splits if_splits sum.splits
        intro: exI [of _ "[]"])
next
  case False
  have "written (handle_input env p st) = written st" "written (handle_clipboard env p st) = written st"
    "written (handle_control env p st) = written st"
    by (simp_all add: handle_input_def handle_clipboard_def handle_control_def Let_def split: option.split)
  then have "written (handle env p st) = written st"
    using False by (auto simp: handle_def handleClientPacket_def)
  then show ?thesis by (intro exI [of _ "[]"]) simp
qed

lemma fold_handle_writes:
  "\<exists>ws. written (fold (handle env) ps st) = written st @ ws \<and> list_all (auth_reply env) ws"
proof (induction ps arbitrary: st)
  case (Cons p ps)
  obtain us where us: "written (handle env p st) = written st @ us" "list_all (auth_reply env) us"
    using handle_writes by blast
  obtain vs where "written (fold (handle env) ps (handle env p st)) = written (handle env p st) @ vs"
    "list_all (auth_reply env) vs" using Cons by blast
  then show ?case using us by (intro exI [of _ "us @ vs"]) simp
qed simp

lemma snoc_shuffles:
  "zs \<in> shuffles xs ys \<Longrightarrow> zs @ [a] \<in> shuffles (xs @ [a]) ys"
  "zs \<in> shuffles xs ys \<Longrightarrow> zs @ [a] \<in> shuffles xs (ys @ [a])"
proof -
  show left: "zs @ [a] \<in> shuffles (xs @ [a]) ys" if "zs \<in> shuffles xs ys" for xs ys zs :: "'a list"
    using that
  proof (induction zs arbitrary: xs ys)
    case (Cons z zs)
    then show ?case by (auto simp: Cons_in_shuffles_iff)
  qed simp
  then show "zs \<in> shuffles xs ys \<Longrightarrow> zs @ [a] \<in> shuffles xs (ys @ [a])"
    using shuffles_commutes by metis
qed

lemma append_shuffles: "zs \<in> shuffles xs ys \<Longrightarrow> zs @ ws \<in> shuffles (xs @ ws) ys"
proof (induction ws arbitrary: zs xs)
  case (Cons w ws)
  then show ?case using Cons.IH [OF snoc_shuffles(1) [OF Cons.prems]] by simp
qed simp

section \<open>Invariants of the server\<close>

text \<open>Every connection runs as it would alone, and what was written to it are replies to logins and
  some of the frames sent, in their order.\<close>

definition client_inv :: "agent_env \<Rightarrow> bytes list \<Rightarrow> server_client \<Rightarrow> bool" where
  "client_inv env frames c \<longleftrightarrow>
     reached env (newConnection (agent_qt env) (client_peer c)) (handled c) (conn c) \<and>
     (\<exists>rs fs. written (conn c) \<in> shuffles rs fs \<and> list_all (auth_reply env) rs \<and> subseq fs frames \<and>
       ((\<forall>p \<in> set (handled c). \<not> accepted_auth env p) \<and> \<not> isLoopbackPeer (agent_qt env) (client_peer c) \<longrightarrow> fs = []))"

definition server_inv :: "agent_env \<Rightarrow> server \<Rightarrow> bool" where
  "server_inv env s \<longleftrightarrow>
     (\<forall>c \<in> set (clients s). client_inv env (sent_frames s) c) \<and>
     (\<forall>m \<in> set (posted s). \<exists>f. frame_message env f = Inr m)"

lemma client_inv_new: "client_inv env frames \<lparr>client_peer = a, is_open = op, conn = newConnection (agent_qt env) a, handled = []\<rparr>"
  by (auto simp: client_inv_def newConnection_def Let_def intro: reached.start exI [of _ "[]"])

lemma client_inv_read:
  assumes "client_inv env frames c" and "length arrived < 2 ^ 32"
    and "agent_readyRead env arrived (conn c) = Some (Inr st)"
  shows "client_inv env frames (c\<lparr>conn := st, handled := handled c @ segment_packets (agent_host env) arrived\<rparr>)"
proof -
  have st: "st = fold (handle env) (segment_packets (agent_host env) arrived) (conn c)"
    using assms(2,3) by (simp add: agent_readyRead_def ready_loop_handles)
  obtain ws where ws: "written st = written (conn c) @ ws" "list_all (auth_reply env) ws"
    using fold_handle_writes st by metis
  obtain rs fs where old: "written (conn c) \<in> shuffles rs fs" "list_all (auth_reply env) rs" "subseq fs frames"
    "(\<forall>p \<in> set (handled c). \<not> accepted_auth env p) \<and> \<not> isLoopbackPeer (agent_qt env) (client_peer c) \<longrightarrow> fs = []"
    and run: "reached env (newConnection (agent_qt env) (client_peer c)) (handled c) (conn c)"
    using assms(1) by (auto simp: client_inv_def)
  have "written st \<in> shuffles (rs @ ws) fs" using append_shuffles [OF old(1)] ws(1) by simp
  then show ?thesis
    using old ws(2) reached.data [OF run assms(2,3)] unfolding client_inv_def
    by (intro conjI exI [of _ "rs @ ws"] exI [of _ fs]) auto
qed

lemma client_inv_sent:
  assumes "client_inv env frames c" and "frame_message env f = Inr m"
  shows "client_inv env (frames @ [m]) (send_to_client m c)"
proof (cases "is_open c \<and> authenticated (conn c)")
  case True
  let ?st = "(conn c)\<lparr>written := written (conn c) @ [m]\<rparr>"
  obtain rs fs where old: "written (conn c) \<in> shuffles rs fs" "list_all (auth_reply env) rs" "subseq fs frames"
    and run: "reached env (newConnection (agent_qt env) (client_peer c)) (handled c) (conn c)"
    using assms(1) by (auto simp: client_inv_def)
  have "on_frame env f [(True, conn c)] = Inr [(True, ?st)]"
    using assms(2) True by (simp add: on_frame_def broadcast_def)
  then have run': "reached env (newConnection (agent_qt env) (client_peer c)) (handled c) ?st"
    by (rule reached.frame [OF run])
  have trusted: "(\<exists>p \<in> set (handled c). accepted_auth env p) \<or> isLoopbackPeer (agent_qt env) (client_peer c)"
  proof (rule ccontr)
    assume "\<not> ?thesis"
    then show False using reached_unauthenticated [OF run] True by (simp add: newConnection_def Let_def)
  qed
  have "written (conn c) @ [m] \<in> shuffles rs (fs @ [m])" by (rule snoc_shuffles(2) [OF old(1)])
  then have "\<exists>rs fs. written ?st \<in> shuffles rs fs \<and> list_all (auth_reply env) rs \<and> subseq fs (frames @ [m])"
    using old(2,3) by (intro exI [of _ rs] exI [of _ "fs @ [m]"]) simp
  then show ?thesis using run' trusted True by (simp add: client_inv_def send_to_client_def) blast
next
  case False
  have "subseq fs frames \<Longrightarrow> subseq fs (frames @ [m])" for fs by (rule list_emb_prefix)
  then show ?thesis using assms(1) False by (auto simp: client_inv_def send_to_client_def) 
qed

lemma server_inv_step: "server_step env s s' \<Longrightarrow> server_inv env s \<Longrightarrow> server_inv env s'"
proof (induction rule: server_step.induct)
  case (accept s a)
  then show ?case using client_inv_new by (auto simp: server_inv_def server_accept_def)
next
  case (read i s arrived s')
  obtain st where st: "agent_readyRead env arrived (conn (clients s ! i)) = Some (Inr st)"
    and s': "s' = s\<lparr>clients := (clients s)[i := (clients s ! i)\<lparr>conn := st,
      handled := handled (clients s ! i) @ segment_packets (agent_host env) arrived\<rparr>]\<rparr>"
    using read.hyps(4) by (auto simp: server_read_def Let_def split: option.splits sum.splits)
  have "client_inv env (sent_frames s) (clients s ! i)"
    using read.prems read.hyps(1) by (simp add: server_inv_def)
  from client_inv_read [OF this read.hyps(3) st] show ?case
    using read.prems by (auto simp: server_inv_def s' dest!: set_update_subset_insert [THEN subsetD])
next
  case (captured f s s')
  then show ?case by (auto simp: server_inv_def server_capture_def split: if_splits sum.splits)
next
  case (run_posted s)
  then show ?case
    using client_inv_sent by (fastforce simp: server_inv_def server_run_posted_def split: list.split)
next
  case (closing i s)
  have "client_inv env (sent_frames s) ((clients s ! i)\<lparr>is_open := False\<rparr>)"
    using closing by (simp add: server_inv_def client_inv_def)
  then show ?case
    using closing.prems by (auto simp: server_inv_def dest!: set_update_subset_insert [THEN subsetD])
next
  case (disconnected i s)
  then show ?case
    by (auto simp: server_inv_def server_disconnected_def dest: in_set_takeD in_set_dropD)
qed

lemma server_run_inv: "(server_step env)\<^sup>*\<^sup>* server_start s \<Longrightarrow> server_inv env s"
proof (induction rule: rtranclp_induct)
  case base
  then show ?case by (simp add: server_start_def server_inv_def)
next
  case (step s s')
  then show ?case using server_inv_step by blast
qed

section \<open>Frames on their way\<close>

text \<open>Frames captured while the main thread runs what was posted, in any interleaving.\<close>

inductive frame_run :: "agent_env \<Rightarrow> server \<Rightarrow> FrameData list \<Rightarrow> server \<Rightarrow> bool" for env s0 where
  begin_frames: "frame_run env s0 [] s0"
| frame_captured: "frame_run env s0 fs s \<Longrightarrow> server_capture env f s = Inr s' \<Longrightarrow> frame_run env s0 (fs @ [f]) s'"
| frame_posted: "frame_run env s0 fs s \<Longrightarrow> frame_run env s0 fs (server_run_posted s)"

definition send_all :: "bytes list \<Rightarrow> server_client \<Rightarrow> server_client" where
  "send_all ws c =
     (if is_open c \<and> authenticated (conn c)
      then c\<lparr>conn := (conn c)\<lparr>written := written (conn c) @ ws\<rparr>\<rparr> else c)"

lemma send_all_snoc: "send_to_client w (send_all ws c) = send_all (ws @ [w]) c"
  by (simp add: send_to_client_def send_all_def)

lemma send_all_Nil [simp]: "send_all [] c = c"
  by (simp add: send_all_def)

lemma frame_run_sends:
  assumes "frame_run env s0 fs s" and "clients s0 \<noteq> []" and "posted s0 = []"
  shows "\<exists>done_ws. map (frame_message env) fs = map Inr (done_ws @ posted s) \<and>
    clients s = map (send_all done_ws) (clients s0)"
  using assms(1)
proof (induction rule: frame_run.induct)
  case begin_frames
  then show ?case using assms(3) by (intro exI [of _ "[]"]) (simp add: map_idI)
next
  case (frame_captured fs s f s')
  then obtain ws where ws: "map (frame_message env) fs = map Inr (ws @ posted s)" "clients s = map (send_all ws) (clients s0)"
    by blast
  then have "clients s \<noteq> []" using assms(2) by simp
  then obtain m where "frame_message env f = Inr m" "s' = s\<lparr>posted := posted s @ [m]\<rparr>"
    using frame_captured.hyps(2) by (auto simp: server_capture_def split: sum.splits)
  then show ?case using ws by (intro exI [of _ ws]) simp
next
  case (frame_posted fs s)
  then obtain ws where ws: "map (frame_message env) fs = map Inr (ws @ posted s)" "clients s = map (send_all ws) (clients s0)"
    by blast
  show ?case
  proof (cases "posted s")
    case Nil
    then show ?thesis using ws by (intro exI [of _ ws]) (simp add: server_run_posted_def)
  next
    case (Cons m rest)
    then show ?thesis
      using ws by (intro exI [of _ "ws @ [m]"]) (simp add: server_run_posted_def send_all_snoc)
  qed
qed

text \<open>With a key of the right size nothing stops the frames: each is captured and sent on.\<close>

lemma frame_run_possible:
  assumes "length (session_key env) = KEY_SIZE" and "posted s0 = []"
  obtains s where "frame_run env s0 fs s" and "posted s = []"
proof -
  have "\<exists>s. frame_run env s0 fs s \<and> posted s = []"
  proof (induction fs rule: rev_induct)
    case Nil
    then show ?case using begin_frames assms(2) by blast
  next
    case (snoc f fs)
    then obtain s where s: "frame_run env s0 fs s" "posted s = []" by blast
    obtain m where m: "frame_message env f = Inr m"
      using seal_message_ok [OF assms(1)] by (fastforce simp: frame_message_def)
    show ?case
    proof (cases "clients s = []")
      case True
      then show ?thesis using frame_captured [OF s(1), of f s] s(2) by (auto simp: server_capture_def)
    next
      case False
      then have "server_capture env f s = Inr (s\<lparr>posted := [m]\<rparr>)" using s(2) m by (simp add: server_capture_def)
      then have "frame_run env s0 (fs @ [f]) (server_run_posted (s\<lparr>posted := [m]\<rparr>))"
        by (intro frame_posted frame_captured [OF s(1)])
      then show ?thesis by (auto simp: server_run_posted_def intro: exI)
    qed
  qed
  then show thesis using that by blast
qed

section \<open>Properties\<close>


text \<open>A server with a local client and a remote one, and a frame on its way.\<close>

definition demo_remote_peer :: peer where
  "demo_remote_peer = \<lparr>peer_isLoopback = False, peer_text = qstr ''10.0.0.7''\<rparr>"

definition demo_frame :: FrameData where
  "demo_frame = \<lparr>fwidth = 1, fheight = 1, stride = 4, frame_format = RGBA8888, frameNumber = 1, timestampUs = 0,
                 pixelData = [10, 20, 30, 255]\<rparr>"


end
