(* ===== verification/Capture_Thread.thy ===== *)
theory Capture_Thread
  imports Capture
begin

text \<open>
  The capture threads (\<open>startCapture\<close>, \<open>stopCapture\<close> and the loops of \<open>LinuxX11Capture.cpp\<close>,
  \<open>LinuxDrmCapture.cpp\<close> and \<open>WindowsDxgiCaptureBackend.cpp\<close>) as interleaved steps. One step is one access
  to a shared flag, one capture with its callback, the creation of the thread or its joining. A
  \<open>std::thread\<close> member is \<open>None\<close> when it is not joinable; assigning a thread to a joinable one
  calls \<open>std::terminate\<close>, which the models keep as a state of its own.
\<close>

section \<open>X11\<close>

text \<open>Where the capture thread is in its loop, and its owner in \<open>startCapture\<close> or \<open>stopCapture\<close>.\<close>

datatype thread_pc = T_Check | T_Capture | T_Sleep | T_Leave | T_Done

datatype owner_pc =
  O_Idle | O_ClearStop | O_SetFlag | O_Spawn | O_RequestStop | O_Join | O_ClearFlag | O_Terminated

record x11_run =
  backend :: LinuxX11Capture
  captureThread :: "thread_pc option"
  owner :: owner_pc
  answered :: "x_screen_env list"
  delivered :: "FrameData list"

definition x11_run_start :: "LinuxX11Capture \<Rightarrow> x11_run" where
  "x11_run_start b = \<lparr>backend = b, captureThread = None, owner = O_Idle, answered = [], delivered = []\<rparr>"

text \<open>An iteration of the loop: the answer of the screen, and the callback when there is a frame.\<close>

definition x11_capture_step :: "x_screen_env \<Rightarrow> x11_run \<Rightarrow> x11_run" where
  "x11_capture_step e r =
     (case x11cap_captureSingleFrame e (backend r) of
        (f, b) \<Rightarrow> r\<lparr>backend := b, answered := answered r @ [e],
                   delivered := delivered r @ (case f of None \<Rightarrow> [] | Some f \<Rightarrow> [f]),
                   captureThread := Some T_Sleep\<rparr>)"

inductive x11_thread_step :: "x11_run \<Rightarrow> x11_run \<Rightarrow> bool" where
  check: "captureThread r = Some T_Check \<Longrightarrow>
    x11_thread_step r (r\<lparr>captureThread := Some (if stopRequested (backend r) then T_Leave else T_Capture)\<rparr>)"
| capture: "captureThread r = Some T_Capture \<Longrightarrow> x11_thread_step r (x11_capture_step e r)"
| sleep: "captureThread r = Some T_Sleep \<Longrightarrow> x11_thread_step r (r\<lparr>captureThread := Some T_Check\<rparr>)"
| leave: "captureThread r = Some T_Leave \<Longrightarrow>
    x11_thread_step r (r\<lparr>backend := (backend r)\<lparr>isCapturing := False\<rparr>, captureThread := Some T_Done\<rparr>)"

inductive x11_owner_step :: "x11_run \<Rightarrow> x11_run \<Rightarrow> bool" where
  start_refused: "owner r = O_Idle \<Longrightarrow> isCapturing (backend r) \<Longrightarrow> x11_owner_step r r"
| start: "owner r = O_Idle \<Longrightarrow> \<not> isCapturing (backend r) \<Longrightarrow> x11_owner_step r (r\<lparr>owner := O_ClearStop\<rparr>)"
| clear_stop: "owner r = O_ClearStop \<Longrightarrow>
    x11_owner_step r (r\<lparr>backend := (backend r)\<lparr>stopRequested := False\<rparr>, owner := O_SetFlag\<rparr>)"
| set_flag: "owner r = O_SetFlag \<Longrightarrow>
    x11_owner_step r (r\<lparr>backend := (backend r)\<lparr>isCapturing := True\<rparr>, owner := O_Spawn\<rparr>)"
| spawn: "owner r = O_Spawn \<Longrightarrow> captureThread r = None \<Longrightarrow>
    x11_owner_step r (r\<lparr>captureThread := Some T_Check, owner := O_Idle\<rparr>)"
| spawn_joinable: "owner r = O_Spawn \<Longrightarrow> captureThread r \<noteq> None \<Longrightarrow> x11_owner_step r (r\<lparr>owner := O_Terminated\<rparr>)"
| stop_nothing: "owner r = O_Idle \<Longrightarrow> \<not> isCapturing (backend r) \<Longrightarrow> x11_owner_step r r"
| stop: "owner r = O_Idle \<Longrightarrow> isCapturing (backend r) \<Longrightarrow> x11_owner_step r (r\<lparr>owner := O_RequestStop\<rparr>)"
| request_stop: "owner r = O_RequestStop \<Longrightarrow>
    x11_owner_step r (r\<lparr>backend := (backend r)\<lparr>stopRequested := True\<rparr>, owner := O_Join\<rparr>)"
| join: "owner r = O_Join \<Longrightarrow> captureThread r \<in> {None, Some T_Done} \<Longrightarrow>
    x11_owner_step r (r\<lparr>captureThread := None, owner := O_ClearFlag\<rparr>)"
| clear_flag: "owner r = O_ClearFlag \<Longrightarrow>
    x11_owner_step r (r\<lparr>backend := (backend r)\<lparr>isCapturing := False\<rparr>, owner := O_Idle\<rparr>)"

inductive_cases x11_thread_stepE [elim!]: "x11_thread_step r r'"
inductive_cases x11_owner_stepE [elim!]: "x11_owner_step r r'"

definition x11_step :: "x11_run \<Rightarrow> x11_run \<Rightarrow> bool" where
  "x11_step r r' \<longleftrightarrow> x11_thread_step r r' \<or> x11_owner_step r r'"

text \<open>A capture does not depend on the flags, so what the thread hands over is the run of
  \<open>capture_frames\<close> on the screen's answers, whatever the owner does meanwhile.\<close>

definition set_flags :: "bool \<Rightarrow> bool \<Rightarrow> LinuxX11Capture \<Rightarrow> LinuxX11Capture" where
  "set_flags c s b = b\<lparr>isCapturing := c, stopRequested := s\<rparr>"

lemma capture_set_flags:
  "x11cap_captureSingleFrame e (set_flags c s b) =
     (fst (x11cap_captureSingleFrame e b), set_flags c s (snd (x11cap_captureSingleFrame e b)))"
  by (cases b) (simp add: x11cap_captureSingleFrame_def set_flags_def Let_def split: option.split)

definition captured_backend :: "x_screen_env list \<Rightarrow> LinuxX11Capture \<Rightarrow> LinuxX11Capture" where
  "captured_backend es b = fold (\<lambda>e b. snd (x11cap_captureSingleFrame e b)) es b"

lemma capture_frames_snoc:
  "capture_frames cap (es @ [e]) s =
     capture_frames cap es s @
     (case fst (cap e (fold (\<lambda>e s. snd (cap e s)) es s)) of None \<Rightarrow> [] | Some f \<Rightarrow> [f])"
  by (induction es arbitrary: s) (simp_all split: prod.split option.split)

abbreviation unflagged :: "LinuxX11Capture \<Rightarrow> LinuxX11Capture" where
  "unflagged b \<equiv> set_flags False False b"

definition x11_refines :: "LinuxX11Capture \<Rightarrow> x11_run \<Rightarrow> bool" where
  "x11_refines b r \<longleftrightarrow>
     delivered r = capture_frames x11cap_captureSingleFrame (answered r) b \<and>
     unflagged (backend r) = unflagged (captured_backend (answered r) b)"

lemma unflagged_update [simp]:
  "unflagged (b\<lparr>isCapturing := c\<rparr>) = unflagged b" "unflagged (b\<lparr>stopRequested := c\<rparr>) = unflagged b"
  by (cases b; simp add: set_flags_def)+

lemma capture_unflagged:
  assumes "unflagged b = unflagged b'"
  shows "fst (x11cap_captureSingleFrame e b) = fst (x11cap_captureSingleFrame e b')"
    and "unflagged (snd (x11cap_captureSingleFrame e b)) = unflagged (snd (x11cap_captureSingleFrame e b'))"
  using capture_set_flags [of e False False b] capture_set_flags [of e False False b'] assms by simp_all

lemma x11_refines_capture: "x11_refines b r \<Longrightarrow> x11_refines b (x11_capture_step e r)"
  using capture_unflagged [of "backend r" "captured_backend (answered r) b" e]
  by (simp add: x11_refines_def x11_capture_step_def capture_frames_snoc captured_backend_def case_prod_beta)

lemma x11_refines_step: "x11_step r r' \<Longrightarrow> x11_refines b r \<Longrightarrow> x11_refines b r'"
  unfolding x11_step_def
  by (elim disjE x11_thread_stepE x11_owner_stepE; (simp only: x11_refines_capture)?) (simp_all add: x11_refines_def)

section \<open>What the owner can rely on\<close>

text \<open>Which thread there is, and how the flags stand, at every point of the owner.\<close>

definition looping :: "thread_pc option \<Rightarrow> bool" where
  "looping t \<longleftrightarrow> t \<in> {Some T_Check, Some T_Capture, Some T_Sleep}"

definition x11_inv :: "x11_run \<Rightarrow> bool" where
  "x11_inv r \<longleftrightarrow>
     (case owner r of
        O_Idle \<Rightarrow> if isCapturing (backend r) then looping (captureThread r) \<and> \<not> stopRequested (backend r)
                  else captureThread r = None
      | O_ClearStop \<Rightarrow> captureThread r = None
      | O_SetFlag \<Rightarrow> captureThread r = None \<and> \<not> stopRequested (backend r)
      | O_Spawn \<Rightarrow> captureThread r = None \<and> \<not> stopRequested (backend r) \<and> isCapturing (backend r)
      | O_RequestStop \<Rightarrow> looping (captureThread r) \<and> \<not> stopRequested (backend r)
      | O_Join \<Rightarrow> captureThread r \<noteq> None \<and> stopRequested (backend r)
      | O_ClearFlag \<Rightarrow> captureThread r = None
      | O_Terminated \<Rightarrow> False)"

lemma x11_capture_step_simps [simp]:
  "owner (x11_capture_step e r) = owner r"
  "captureThread (x11_capture_step e r) = Some T_Sleep"
  "isCapturing (backend (x11_capture_step e r)) = isCapturing (backend r)"
  "stopRequested (backend (x11_capture_step e r)) = stopRequested (backend r)"
  by (simp_all add: x11_capture_step_def x11cap_captureSingleFrame_def Let_def split: option.split)

lemma x11_inv_step: "x11_step r r' \<Longrightarrow> x11_inv r \<Longrightarrow> x11_inv r'"
  unfolding x11_step_def
  by (elim disjE x11_thread_stepE x11_owner_stepE)
     (auto simp: x11_inv_def looping_def split: owner_pc.splits if_splits)

definition x11_fresh :: "LinuxX11Capture \<Rightarrow> bool" where
  "x11_fresh b \<longleftrightarrow> \<not> isCapturing b \<and> \<not> stopRequested b"

lemma x11_run_invariants:
  assumes "x11_step\<^sup>*\<^sup>* (x11_run_start b) r" and "x11_fresh b"
  shows "x11_inv r \<and> x11_refines b r"
  using assms(1)
proof (induction rule: rtranclp_induct)
  case base
  then show ?case
    using assms(2) by (simp add: x11_fresh_def x11_run_start_def x11_inv_def x11_refines_def captured_backend_def)
next
  case (step r r')
  then show ?case using x11_inv_step x11_refines_step by blast
qed

text \<open>How many steps the thread has left once a stop is requested, and that it is never stuck.\<close>

fun steps_left :: "thread_pc option \<Rightarrow> nat" where
  "steps_left (Some T_Capture) = 4"
| "steps_left (Some T_Sleep) = 3"
| "steps_left (Some T_Check) = 2"
| "steps_left (Some T_Leave) = 1"
| "steps_left t = 0"

lemma thread_step_counts:
  "x11_thread_step r r' \<Longrightarrow> stopRequested (backend r) \<Longrightarrow>
   steps_left (captureThread r) = Suc (steps_left (captureThread r')) \<and> stopRequested (backend r') \<and>
   owner r' = owner r"
  by auto

lemma thread_step_enabled:
  assumes "captureThread r \<noteq> None" and "captureThread r \<noteq> Some T_Done"
  shows "\<exists>r'. x11_thread_step r r'"
proof -
  obtain pc where "captureThread r = Some pc" "pc \<noteq> T_Done" using assms by auto
  then show ?thesis by (cases pc) (blast intro: x11_thread_step.intros)+
qed

lemma thread_run_counts:
  assumes "(x11_thread_step ^^ n) r r'" and "stopRequested (backend r)"
  shows "steps_left (captureThread r) = n + steps_left (captureThread r') \<and> owner r' = owner r"
  using assms
proof (induction n arbitrary: r)
  case (Suc n)
  obtain r1 where r1: "x11_thread_step r r1" "(x11_thread_step ^^ n) r1 r'"
    by (rule relpowp_Suc_E2 [OF Suc.prems(1)])
  note counts = thread_step_counts [OF r1(1) Suc.prems(2)]
  then show ?case using Suc.IH [OF r1(2)] by simp
qed simp


lemma thread_run_keeps: "(x11_thread_step ^^ n) r r' \<Longrightarrow> captureThread r \<noteq> None \<Longrightarrow> captureThread r' \<noteq> None"
proof (induction n arbitrary: r')
  case (Suc n)
  then show ?case by (auto elim!: relpowp_Suc_E)
qed simp

section \<open>DRM and DXGI\<close>

text \<open>
  The loops of the other two backends have one flag, which \<open>stopCapture\<close> clears before it joins the
  thread. DXGI guards its members by a mutex, which makes \<open>startCapture\<close> and the first part of
  \<open>stopCapture\<close> one step each, but joins outside it. \<open>joining\<close> holds for each of the threads that
  own the backend whether it waits for the join. DRM has no mutex and one owner.
\<close>

record 's loop_run =
  device :: 's
  loopThread :: "thread_pc option"
  joining :: "bool list"
  terminated :: bool
  loop_delivered :: "FrameData list"

definition loop_run_start :: "nat \<Rightarrow> 's \<Rightarrow> 's loop_run" where
  "loop_run_start n s =
     \<lparr>device = s, loopThread = None, joining = replicate n False, terminated = False, loop_delivered = []\<rparr>"

text \<open>\<open>startCapture\<close> makes a thread when it turns the flag on.\<close>

definition loop_start :: "('s \<Rightarrow> bool \<times> 's) \<Rightarrow> ('s \<Rightarrow> bool) \<Rightarrow> 's loop_run \<Rightarrow> 's loop_run" where
  "loop_start start capturing r =
     (case start (device r) of
        (ok, d) \<Rightarrow>
          if ok \<and> \<not> capturing (device r)
          then if loopThread r = None then r\<lparr>device := d, loopThread := Some T_Check\<rparr>
               else r\<lparr>device := d, terminated := True\<rparr>
          else r\<lparr>device := d\<rparr>)"

definition loop_stop :: "('s \<Rightarrow> 's) \<Rightarrow> ('s \<Rightarrow> bool) \<Rightarrow> nat \<Rightarrow> 's loop_run \<Rightarrow> 's loop_run" where
  "loop_stop stop capturing i r =
     (if \<not> capturing (device r) then r
      else r\<lparr>device := stop (device r), joining := (joining r)[i := True]\<rparr>)"

definition loop_capture :: "('s \<Rightarrow> FrameData option \<times> 's) \<Rightarrow> 's loop_run \<Rightarrow> 's loop_run" where
  "loop_capture capture r =
     (case capture (device r) of
        (f, d) \<Rightarrow> r\<lparr>device := d, loopThread := Some T_Sleep,
                   loop_delivered := loop_delivered r @ (case f of None \<Rightarrow> [] | Some f \<Rightarrow> [f])\<rparr>)"

inductive loop_step ::
    "('e \<Rightarrow> 's \<Rightarrow> FrameData option \<times> 's) \<Rightarrow> ('e \<Rightarrow> 's \<Rightarrow> bool \<times> 's) \<Rightarrow> ('s \<Rightarrow> 's) \<Rightarrow> ('s \<Rightarrow> bool) \<Rightarrow>
     's loop_run \<Rightarrow> 's loop_run \<Rightarrow> bool"
  for capture start stop capturing where
  owner_start: "\<not> terminated r \<Longrightarrow> i < length (joining r) \<Longrightarrow> \<not> joining r ! i \<Longrightarrow>
    loop_step capture start stop capturing r (loop_start (start e) capturing r)"
| owner_stop: "\<not> terminated r \<Longrightarrow> i < length (joining r) \<Longrightarrow> \<not> joining r ! i \<Longrightarrow>
    loop_step capture start stop capturing r (loop_stop stop capturing i r)"
| owner_join: "\<not> terminated r \<Longrightarrow> i < length (joining r) \<Longrightarrow> joining r ! i \<Longrightarrow>
    loopThread r \<in> {None, Some T_Done} \<Longrightarrow>
    loop_step capture start stop capturing r (r\<lparr>loopThread := None, joining := (joining r)[i := False]\<rparr>)"
| thread_check: "\<not> terminated r \<Longrightarrow> loopThread r = Some T_Check \<Longrightarrow>
    loop_step capture start stop capturing r
      (r\<lparr>loopThread := Some (if capturing (device r) then T_Capture else T_Done)\<rparr>)"
| thread_capture: "\<not> terminated r \<Longrightarrow> loopThread r = Some T_Capture \<Longrightarrow>
    loop_step capture start stop capturing r (loop_capture (capture e) r)"
| thread_sleep: "\<not> terminated r \<Longrightarrow> loopThread r = Some T_Sleep \<Longrightarrow>
    loop_step capture start stop capturing r (r\<lparr>loopThread := Some T_Check\<rparr>)"

abbreviation drm_loop_step :: "LinuxDrmCapture loop_run \<Rightarrow> LinuxDrmCapture loop_run \<Rightarrow> bool" where
  "drm_loop_step \<equiv> loop_step drm_captureSingleFrame drm_startCapture drm_stopCapture m_isCapturing"

abbreviation dxgi_loop_step :: "WindowsDxgiCapture loop_run \<Rightarrow> WindowsDxgiCapture loop_run \<Rightarrow> bool" where
  "dxgi_loop_step \<equiv>
     loop_step dxgi_captureSingleFrame (\<lambda>e. dxgi_startCapture) dxgi_stopCapture dx_isCapturing"

section \<open>Owners of a loop\<close>

locale capture_loop =
  capture_backend capture start stop capturing monitors select current counter wf
  for capture :: "'e \<Rightarrow> 's \<Rightarrow> FrameData option \<times> 's"
    and start :: "'e \<Rightarrow> 's \<Rightarrow> bool \<times> 's"
    and stop :: "'s \<Rightarrow> 's"
    and capturing :: "'s \<Rightarrow> bool"
    and monitors :: "'e \<Rightarrow> 's \<Rightarrow> MonitorInfo list"
    and select :: "'e \<Rightarrow> 32 word \<Rightarrow> 's \<Rightarrow> bool \<times> 's"
    and current :: "'s \<Rightarrow> 32 word"
    and counter :: "'s \<Rightarrow> 64 word"
    and wf :: "'s \<Rightarrow> bool" +
  assumes start_on: "fst (start e s) \<Longrightarrow> capturing (snd (start e s))"
    and start_refused: "\<not> fst (start e s) \<Longrightarrow> capturing (snd (start e s)) = capturing s"
    and capture_keeps: "capturing (snd (capture e s)) = capturing s"
begin

text \<open>With one owner: a thread is only made when there is none, and there is none once \<open>stopCapture\<close>
  has returned.\<close>

definition single_owner :: "'s loop_run \<Rightarrow> bool" where
  "single_owner r \<longleftrightarrow> \<not> terminated r \<and> length (joining r) \<le> 1 \<and>
     (capturing (device r) \<longrightarrow> joining r = [False]) \<and>
     (\<not> capturing (device r) \<longrightarrow> joining r = [True] \<or> loopThread r = None)"

lemma start_keeps: "capturing s \<Longrightarrow> capturing (snd (start e s))"
  using start_on start_refused by blast

lemma start_turns_on: "fst (start e s) \<or> \<not> capturing (snd (start e s)) \<or> capturing s"
  using start_refused by blast

lemma single_owner_step:
  assumes "loop_step capture start stop capturing r r'" and "single_owner r"
  shows "single_owner r'"
  using assms
proof (induction rule: loop_step.induct)
  case (owner_start r i e)
  then have "joining r = [False]" by (cases "joining r") (auto simp: single_owner_def)
  then show ?case
    using owner_start start_keeps [of "device r" e] start_turns_on [of e "device r"] start_on [of e "device r"]
    by (auto simp: single_owner_def loop_start_def case_prod_beta)
next
  case (owner_stop r i)
  then show ?case using stop_idle by (auto simp: single_owner_def loop_stop_def)
next
  case (owner_join r i)
  then show ?case by (auto simp: single_owner_def)
next
  case (thread_capture r e)
  then show ?case
    using capture_keeps [of e "device r"] by (auto simp: single_owner_def loop_capture_def case_prod_beta)
qed (auto simp: single_owner_def)

lemma single_owner_run:
  assumes "(loop_step capture start stop capturing)\<^sup>*\<^sup>* (loop_run_start n s) r" and "n \<le> 1" and "\<not> capturing s"
  shows "single_owner r"
  using assms(1)
proof (induction rule: rtranclp_induct)
  case base
  then show ?case using assms(2,3) by (simp add: single_owner_def loop_run_start_def)
next
  case (step r r')
  then show ?case using single_owner_step by blast
qed

text \<open>With two: one stops, and before it has joined the thread the other starts.\<close>

lemma two_owners_terminate:
  assumes "2 \<le> n" and "\<not> capturing s"
  shows "\<exists>r. (loop_step capture start stop capturing)\<^sup>*\<^sup>* (loop_run_start n s) r \<and> terminated r"
proof -
  let ?step = "loop_step capture start stop capturing"
  let ?r0 = "loop_run_start n s"
  fix e
  define r1 where "r1 = loop_start (start e) capturing ?r0"
  define r2 where "r2 = loop_stop stop capturing 0 r1"
  define r3 where "r3 = loop_start (start e) capturing r2"
  have on: "capturing (snd (start e s))" "fst (start e s)"
    using start_idle [OF assms(2)] start_on by blast+
  have r1: "device r1 = snd (start e s)" "loopThread r1 = Some T_Check" "joining r1 = replicate n False"
    "\<not> terminated r1"
    using on assms(2) by (simp_all add: r1_def loop_start_def loop_run_start_def case_prod_beta)
  have r2: "device r2 = stop (device r1)" "loopThread r2 = Some T_Check" "joining r2 = (replicate n False)[0 := True]"
    "\<not> terminated r2"
    using r1 on by (simp_all add: r2_def loop_stop_def)
  have "terminated r3"
    using r2 stop_idle start_idle by (simp add: r3_def loop_start_def case_prod_beta)
  moreover have "?step ?r0 r1"
    unfolding r1_def by (rule owner_start [where i = 0]) (use assms in \<open>simp_all add: loop_run_start_def\<close>)
  moreover have "?step r1 r2"
    unfolding r2_def by (rule owner_stop) (use assms r1 in simp_all)
  moreover have "?step r2 r3"
    unfolding r3_def by (rule owner_start [where i = 1]) (use assms r2 in simp_all)
  ultimately show ?thesis by (meson converse_rtranclp_into_rtranclp rtranclp.rtrancl_refl)
qed

lemma terminates_iff_shared:
  assumes "\<not> capturing s"
  shows "(\<exists>r. (loop_step capture start stop capturing)\<^sup>*\<^sup>* (loop_run_start n s) r \<and> terminated r) \<longleftrightarrow> 2 \<le> n"
proof (cases "2 \<le> n")
  case True
  then show ?thesis using two_owners_terminate assms by blast
next
  case False
  then have "n \<le> 1" by simp
  then show ?thesis using single_owner_run [OF _ _ assms] False by (auto simp: single_owner_def)
qed

end

interpretation drm_loop: capture_loop drm_captureSingleFrame drm_startCapture drm_stopCapture
  m_isCapturing "\<lambda>e. drm_enumerateMonitors" "\<lambda>e. drm_selectMonitor" drm_activeMonitorId
  m_frameCounter "\<lambda>s. m_stride s = m_width s * 4"
  by unfold_locales
     (auto simp: drm_startCapture_def drm_captureSingleFrame_def drm_ready_def drm_initialize_def Let_def
       split: if_splits)

interpretation dxgi_loop: capture_loop dxgi_captureSingleFrame "\<lambda>e. dxgi_startCapture" dxgi_stopCapture
  dx_isCapturing "\<lambda>e s. dxgi_enumerateMonitors e" "\<lambda>e. dxgi_selectMonitor" dx_currentMonitorId
  dx_frameCounter "\<lambda>_. True"
  by unfold_locales (auto simp: dxgi_startCapture_def dxgi_captureSingleFrame_def Let_def split: if_splits)

section \<open>Properties\<close>

text \<open>
  C15: The X11 backend's thread is always safe to use, at every interleaving with its owner: a running
  thread is never overwritten; once \<open>stopCapture\<close> has returned there is no thread, so no callback
  can follow; and the frames handed over are exactly those a sequential run of captures over the
  screen's answers gives, so the numbers that become their nonces do not repeat.
\<close>

theorem x11_capture_thread_refines:
  assumes "x11_step\<^sup>*\<^sup>* (x11_run_start b) r" and "\<not> isCapturing b" and "\<not> stopRequested b"
  shows "owner r \<noteq> O_Terminated \<and>
    (owner r = O_Idle \<and> \<not> isCapturing (backend r) \<longrightarrow> captureThread r = None) \<and>
    delivered r = capture_frames x11cap_captureSingleFrame (answered r) b \<and>
    (length (answered r) < 2 ^ 64 \<longrightarrow> distinct (map frameNumber (delivered r)))"
  using x11_run_invariants [OF assms(1)] assms(2,3) x11cap.frame_numbers_distinct [of "answered r" b]
  by (auto simp: x11_fresh_def x11_inv_def x11_refines_def split: owner_pc.splits)

definition demo_screen :: x_screen_env where
  "demo_screen = \<lparr>screen_host = x86_64, screen_opens = False, screens = [], default_screen = 0,
                   screen_image = None, now_us = 0\<rparr>"

definition demo_capturing :: x11_run where
  "demo_capturing = (x11_run_start x11cap_new)\<lparr>backend := set_flags True False x11cap_new,
                      captureThread := Some T_Capture\<rparr>"

lemma demo_capturing_reached: "x11_step\<^sup>*\<^sup>* (x11_run_start x11cap_new) demo_capturing"
proof -
  let ?b = "x11cap_new" and ?on = "set_flags True False x11cap_new"
  let ?r = "\<lambda>b t pc. \<lparr>backend = b, captureThread = t, owner = pc, answered = [], delivered = []\<rparr>"
  have flags: "\<not> isCapturing ?b" "?b\<lparr>stopRequested := False\<rparr> = ?b" "?b\<lparr>isCapturing := True\<rparr> = ?on"
    "\<not> stopRequested ?on"
    by (simp_all add: x11cap_new_def set_flags_def)
  have "x11_step (?r ?b None O_Idle) (?r ?b None O_ClearStop)"
    using x11_owner_step.start [of "?r ?b None O_Idle"] flags by (simp add: x11_step_def)
  moreover have "x11_step (?r ?b None O_ClearStop) (?r ?b None O_SetFlag)"
    using x11_owner_step.clear_stop [of "?r ?b None O_ClearStop"] flags by (simp add: x11_step_def)
  moreover have "x11_step (?r ?b None O_SetFlag) (?r ?on None O_Spawn)"
    using x11_owner_step.set_flag [of "?r ?b None O_SetFlag"] flags by (simp add: x11_step_def)
  moreover have "x11_step (?r ?on None O_Spawn) (?r ?on (Some T_Check) O_Idle)"
    using x11_owner_step.spawn [of "?r ?on None O_Spawn"] by (simp add: x11_step_def)
  moreover have "x11_step (?r ?on (Some T_Check) O_Idle) (?r ?on (Some T_Capture) O_Idle)"
    using x11_thread_step.check [of "?r ?on (Some T_Check) O_Idle"] flags by (simp add: x11_step_def)
  ultimately have "x11_step\<^sup>*\<^sup>* (?r ?b None O_Idle) (?r ?on (Some T_Capture) O_Idle)"
    by (meson converse_rtranclp_into_rtranclp rtranclp.rtrancl_refl)
  then show ?thesis by (simp add: x11_run_start_def demo_capturing_def)
qed

theorem x11_capture_thread_refines_witness:
  "x11_step\<^sup>*\<^sup>* (x11_run_start x11cap_new) (x11_capture_step demo_screen demo_capturing) \<and>
   delivered (x11_capture_step demo_screen demo_capturing) = capture_frames x11cap_captureSingleFrame [demo_screen] x11cap_new"
proof -
  have "x11_step demo_capturing (x11_capture_step demo_screen demo_capturing)"
    unfolding x11_step_def by (intro disjI1 x11_thread_step.capture) (simp add: demo_capturing_def)
  with demo_capturing_reached
  have run: "x11_step\<^sup>*\<^sup>* (x11_run_start x11cap_new) (x11_capture_step demo_screen demo_capturing)" by simp
  have "answered (x11_capture_step demo_screen demo_capturing) = [demo_screen]"
    by (simp add: x11_capture_step_def demo_capturing_def x11_run_start_def case_prod_beta)
  then show ?thesis
    using x11_capture_thread_refines [OF run] run by (simp add: x11cap_new_def)
qed

text \<open>
  C23: \<open>stopCapture\<close> returns: once it waits for the thread, the thread takes at most four more steps, is
  never stuck before its end, and the join is then possible; at most one more frame is handed
  over.
\<close>

theorem x11_stop_returns:
  assumes "x11_step\<^sup>*\<^sup>* (x11_run_start b) r" and "\<not> isCapturing b" and "\<not> stopRequested b" and "owner r = O_Join"
    and "(x11_thread_step ^^ n) r r'"
  shows "n \<le> 4 \<and>
    (if captureThread r' = Some T_Done then \<exists>r''. x11_owner_step r' r'' \<and> owner r'' = O_ClearFlag
     else \<exists>r''. x11_thread_step r' r'')"
proof -
  have inv: "captureThread r \<noteq> None" "stopRequested (backend r)"
    using x11_run_invariants [OF assms(1)] assms(2-4) by (auto simp: x11_fresh_def x11_inv_def)
  have count: "steps_left (captureThread r) = n + steps_left (captureThread r')" "owner r' = O_Join"
    using thread_run_counts [OF assms(5) inv(2)] assms(4) by auto
  have "steps_left t \<le> 4" for t by (induction t rule: steps_left.induct) simp_all
  then have "n \<le> 4" using count(1) by (metis add_leE)
  moreover have "captureThread r' \<noteq> None" using inv(1) thread_run_keeps [OF assms(5)] by blast
  moreover have "\<exists>r''. x11_owner_step r' r'' \<and> owner r'' = O_ClearFlag" if "captureThread r' = Some T_Done"
    by (intro exI conjI, rule x11_owner_step.join [OF count(2)]) (simp_all add: that)
  ultimately show ?thesis using thread_step_enabled by simp
qed

definition demo_joining :: x11_run where
  "demo_joining = demo_capturing\<lparr>backend := set_flags True True x11cap_new, owner := O_Join\<rparr>"

theorem x11_stop_returns_witness:
  "x11_step\<^sup>*\<^sup>* (x11_run_start x11cap_new) demo_joining \<and> (\<exists>r. x11_thread_step demo_joining r)"
proof -
  let ?r = "demo_capturing\<lparr>owner := O_RequestStop\<rparr>"
  have "x11_step demo_capturing ?r"
    unfolding x11_step_def
    by (intro disjI2 x11_owner_step.stop) (simp_all add: demo_capturing_def x11_run_start_def set_flags_def)
  moreover have "x11_step ?r demo_joining"
    using x11_owner_step.request_stop [of ?r]
    by (simp add: x11_step_def demo_joining_def demo_capturing_def x11_run_start_def set_flags_def)
  ultimately have run: "x11_step\<^sup>*\<^sup>* (x11_run_start x11cap_new) demo_joining"
    using demo_capturing_reached by (meson rtranclp.rtrancl_into_rtrancl)
  have "owner demo_joining = O_Join" "captureThread demo_joining = Some T_Capture"
    by (simp_all add: demo_joining_def demo_capturing_def)
  then show ?thesis
    using x11_stop_returns [OF run, of 0 demo_joining] run by (simp add: x11cap_new_def)
qed

text \<open>
  C35: Whether a capture backend can bring the program down through its thread is decided by the number
  of threads that use it: with one owner never, with two or more the DXGI backend can, because a
  start may come between the end of the locked part of a stop and its join.
\<close>

theorem dxgi_terminates_iff_shared:
  "(\<exists>r. dxgi_loop_step\<^sup>*\<^sup>* (loop_run_start n dxgi_new) r \<and> terminated r) \<longleftrightarrow> 2 \<le> n"
  by (rule dxgi_loop.terminates_iff_shared) (simp add: dxgi_new_def)

theorem drm_single_owner_safe:
  "drm_loop_step\<^sup>*\<^sup>* (loop_run_start 1 drm_new) r \<Longrightarrow> \<not> terminated r \<and>
   (\<not> m_isCapturing (device r) \<and> joining r = [False] \<longrightarrow> loopThread r = None)"
  using drm_loop.single_owner_run [of 1 drm_new r] by (auto simp: drm_loop.single_owner_def drm_new_def)

end
