(* ===== verification/Chacha_Reference.thy ===== *)
theory Chacha_Reference
  imports Chacha
begin

text \<open>
  The block function of \<open>CryptoEngine.cpp\<close> against the cipher's own definition, which works on a matrix
  of four rows: a column round mixes every column, and a diagonal round is a column round between
  rotating the rows by 0, 1, 2 and 3 and rotating them back. The code has both unrolled over an
  array of sixteen words.
\<close>

section \<open>The cipher on a matrix\<close>

type_synonym row = "32 word list"
type_synonym matrix = "row \<times> row \<times> row \<times> row"

definition column_round :: "matrix \<Rightarrow> matrix" where
  "column_round m =
     (case m of (a, b, c, d) \<Rightarrow>
        let qs = map (\<lambda>i. quarterRound (a ! i) (b ! i) (c ! i) (d ! i)) [0..<4]
        in (map fst qs, map (fst \<circ> snd) qs, map (fst \<circ> snd \<circ> snd) qs, map (snd \<circ> snd \<circ> snd) qs))"

definition rotate_rows :: "nat \<Rightarrow> nat \<Rightarrow> nat \<Rightarrow> matrix \<Rightarrow> matrix" where
  "rotate_rows i j k m = (case m of (a, b, c, d) \<Rightarrow> (a, rotate i b, rotate j c, rotate k d))"

definition diagonal_round :: "matrix \<Rightarrow> matrix" where
  "diagonal_round m = rotate_rows 3 2 1 (column_round (rotate_rows 1 2 3 m))"

definition matrix_round :: "matrix \<Rightarrow> matrix" where
  "matrix_round m = diagonal_round (column_round m)"

definition flat :: "matrix \<Rightarrow> 32 word list" where
  "flat m = (case m of (a, b, c, d) \<Rightarrow> a @ b @ c @ d)"

definition square :: "matrix \<Rightarrow> bool" where
  "square m \<longleftrightarrow> (case m of (a, b, c, d) \<Rightarrow> list_all (\<lambda>r. length r = 4) [a, b, c, d])"

definition reference_block :: "row \<Rightarrow> 32 word list \<Rightarrow> 32 word \<Rightarrow> 32 word list \<Rightarrow> 32 word list" where
  "reference_block constants key counter nonce =
     (let m = (constants, take 4 key, drop 4 key, counter # nonce)
      in map2 (+) (flat ((matrix_round ^^ 10) m)) (flat m))"

section \<open>The unrolled rounds\<close>

lemma list_of_four: "length r = 4 \<longleftrightarrow> (\<exists>a b c d. r = [a, b, c, d])"
  by (auto simp: length_Suc_conv numeral_eq_Suc)

lemma square_column_round: "square (column_round m)"
  by (simp add: square_def column_round_def Let_def case_prod_beta)

lemma square_rotate_rows: "square m \<Longrightarrow> square (rotate_rows i j k m)"
  by (auto simp: square_def rotate_rows_def split: prod.splits)

lemma square_rounds: "square m \<Longrightarrow> square ((matrix_round ^^ n) m)"
  by (induction n) (simp_all add: matrix_round_def diagonal_round_def square_rotate_rows square_column_round)

lemma upt_four: "[0..<4] = [0, 1, 2, 3 :: nat]"
  by (simp add: upt_rec)

definition column_quarters :: "32 word list \<Rightarrow> 32 word list" where
  "column_quarters xs =
     quarterRound_at 3 7 11 15 (quarterRound_at 2 6 10 14 (quarterRound_at 1 5 9 13 (quarterRound_at 0 4 8 12 xs)))"

definition diagonal_quarters :: "32 word list \<Rightarrow> 32 word list" where
  "diagonal_quarters xs =
     quarterRound_at 3 4 9 14 (quarterRound_at 2 7 8 13 (quarterRound_at 1 6 11 12 (quarterRound_at 0 5 10 15 xs)))"

lemma double_round_quarters: "double_round xs = diagonal_quarters (column_quarters xs)"
  by (simp add: double_round_def column_quarters_def diagonal_quarters_def Let_def)

lemma column_quarters_flat:
  assumes "square m"
  shows "column_quarters (flat m) = flat (column_round m)"
proof -
  obtain a0 a1 a2 a3 b0 b1 b2 b3 c0 c1 c2 c3 d0 d1 d2 d3
    where m: "m = ([a0, a1, a2, a3], [b0, b1, b2, b3], [c0, c1, c2, c3], [d0, d1, d2, d3])"
    using assms by (cases m) (auto simp: square_def list_of_four)
  show ?thesis
    by (simp add: m flat_def column_round_def column_quarters_def quarterRound_at_def upt_four case_prod_beta)
qed

lemma diagonal_quarters_flat:
  assumes "square m"
  shows "diagonal_quarters (flat m) = flat (diagonal_round m)"
proof -
  obtain a0 a1 a2 a3 b0 b1 b2 b3 c0 c1 c2 c3 d0 d1 d2 d3
    where m: "m = ([a0, a1, a2, a3], [b0, b1, b2, b3], [c0, c1, c2, c3], [d0, d1, d2, d3])"
    using assms by (cases m) (auto simp: square_def list_of_four)
  show ?thesis
    by (simp add: m flat_def diagonal_round_def rotate_rows_def column_round_def diagonal_quarters_def
        quarterRound_at_def upt_four case_prod_beta numeral_eq_Suc)
qed

lemma double_round_flat: "square m \<Longrightarrow> double_round (flat m) = flat (matrix_round m)"
  by (simp add: double_round_quarters column_quarters_flat diagonal_quarters_flat square_column_round matrix_round_def)

lemma double_rounds_flat:
  assumes "square m"
  shows "(double_round ^^ n) (flat m) = flat ((matrix_round ^^ n) m)"
proof (induction n)
  case (Suc n)
  then show ?case using double_round_flat [OF square_rounds [OF assms]] by simp
qed simp

section \<open>Properties\<close>



end
