(* ===== verification/Sha_Digest.thy ===== *)
theory Sha_Digest
  imports Prelude
begin

text \<open>
  The hash of \<open>libs/file_transfer/src/FileTransferEngine.cpp\<close>, \<open>computeSha256\<close>: padding, the
  message schedule, the compression loop and the hexadecimal digest. Shown here: the padding
  loop ends and is injective, the in-place schedule is the recurrence of FIPS 180-4, and the
  digest is 64 lower-case hexadecimal digits.
\<close>

section \<open>Operations\<close>

definition sha_init :: "32 word list" where
  "sha_init = [0x6a09e667, 0xbb67ae85, 0x3c6ef372, 0xa54ff53a,
               0x510e527f, 0x9b05688c, 0x1f83d9ab, 0x5be0cd19]"

definition sha_k :: "32 word list" where
  "sha_k = concat
    [[0x428a2f98, 0x71374491, 0xb5c0fbcf, 0xe9b5dba5, 0x3956c25b, 0x59f111f1, 0x923f82a4],
     [0xab1c5ed5, 0xd807aa98, 0x12835b01, 0x243185be, 0x550c7dc3, 0x72be5d74, 0x80deb1fe],
     [0x9bdc06a7, 0xc19bf174, 0xe49b69c1, 0xefbe4786, 0x0fc19dc6, 0x240ca1cc, 0x2de92c6f],
     [0x4a7484aa, 0x5cb0a9dc, 0x76f988da, 0x983e5152, 0xa831c66d, 0xb00327c8, 0xbf597fc7],
     [0xc6e00bf3, 0xd5a79147, 0x06ca6351, 0x14292967, 0x27b70a85, 0x2e1b2138, 0x4d2c6dfc],
     [0x53380d13, 0x650a7354, 0x766a0abb, 0x81c2c92e, 0x92722c85, 0xa2bfe8a1, 0xa81a664b],
     [0xc24b8b70, 0xc76c51a3, 0xd192e819, 0xd6990624, 0xf40e3585, 0x106aa070, 0x19a4c116],
     [0x1e376c08, 0x2748774c, 0x34b0bcb5, 0x391c0cb3, 0x4ed8aa4a, 0x5b9cca4f, 0x682e6ff3],
     [0x748f82ee, 0x78a5636f, 0x84c87814, 0x8cc70208, 0x90befffa, 0xa4506ceb, 0xbef9a3f7],
     [0xc67178f2]]"

definition rightRotate :: "32 word \<Rightarrow> nat \<Rightarrow> 32 word" where
  "rightRotate x n = drop_bit n x OR push_bit (32 - n) x"

lemma mod64_pad:
  "q < 64 \<Longrightarrow> (120 - q) mod 64 = (if q \<le> 56 then 56 - q else 120 - q)" for q :: nat
proof (cases "q \<le> 56")
  case True
  then have "120 - q = 56 - q + 64" by linarith
  then show ?thesis using True by (simp only: mod_add_self2) simp
qed simp

lemma suc_mod64: "Suc n mod 64 = (if n mod 64 = 63 then 0 else Suc (n mod 64))"
  by (simp add: mod_Suc)

lemma pad_measure:
  assumes "n mod 64 \<noteq> (56 :: nat)"
  shows "Suc ((120 - Suc n mod 64) mod 64) = (120 - n mod 64) mod 64"
proof -
  define r where "r = n mod 64"
  have r: "r < 64" "r \<noteq> 56" using assms by (simp_all add: r_def)
  then have "Suc ((120 - (if r = 63 then 0 else Suc r)) mod 64) = (120 - r) mod 64"
    by (auto simp: mod64_pad)
  then show ?thesis by (simp only: suc_mod64 r_def)
qed

function pad_zeros :: "bytes \<Rightarrow> bytes" where
  "pad_zeros padded = (if length padded mod 64 \<noteq> 56 then pad_zeros (padded @ [0]) else padded)"
  by pat_completeness auto
termination
  by (relation "measure (\<lambda>p. (120 - length p mod 64) mod 64)") 
     (simp_all add: pad_measure [symmetric])

declare pad_zeros.simps [simp del]

definition sha_pad :: "bytes \<Rightarrow> bytes" where
  "sha_pad data =
     (let padded = pad_zeros (data @ [0x80]);
          bitLength = (of_nat (length data) * 8 :: 64 word)
      in fold (\<lambda>i p. p @ [ucast (drop_bit (i * 8) bitLength AND 0xFF)]) (rev [0..<8]) padded)"

definition schedule_first :: "bytes \<Rightarrow> nat \<Rightarrow> 32 word list" where
  "schedule_first padded chunk =
     map (\<lambda>i. push_bit 24 (ucast (padded ! (chunk + i * 4 + 0))) OR
              push_bit 16 (ucast (padded ! (chunk + i * 4 + 1))) OR
              push_bit 8 (ucast (padded ! (chunk + i * 4 + 2))) OR
              ucast (padded ! (chunk + i * 4 + 3))) [0..<16]"

definition small_sigma0 :: "32 word \<Rightarrow> 32 word" where
  "small_sigma0 x = rightRotate x 7 XOR rightRotate x 18 XOR drop_bit 3 x"

definition small_sigma1 :: "32 word \<Rightarrow> 32 word" where
  "small_sigma1 x = rightRotate x 17 XOR rightRotate x 19 XOR drop_bit 10 x"

text \<open>The array \<open>w\<close> is uninitialised in the code; its last 48 words are written before they
  are read, so their first value (0 here) does not matter.\<close>

definition schedule :: "bytes \<Rightarrow> nat \<Rightarrow> 32 word list" where
  "schedule padded chunk =
     fold (\<lambda>i w. w[i := w ! (i - 16) + small_sigma0 (w ! (i - 15)) + w ! (i - 7) +
                        small_sigma1 (w ! (i - 2))])
       [16..<64] (schedule_first padded chunk @ replicate 48 0)"

type_synonym sha_vars =
  "32 word \<times> 32 word \<times> 32 word \<times> 32 word \<times> 32 word \<times> 32 word \<times> 32 word \<times> 32 word"

fun sha_round :: "32 word list \<Rightarrow> nat \<Rightarrow> sha_vars \<Rightarrow> sha_vars" where
  "sha_round w i (a, b, c, d, e, f, g, h_val) =
     (let S1 = rightRotate e 6 XOR rightRotate e 11 XOR rightRotate e 25;
          ch = (e AND f) XOR (NOT e AND g);
          temp1 = h_val + S1 + ch + sha_k ! i + w ! i;
          S0 = rightRotate a 2 XOR rightRotate a 13 XOR rightRotate a 22;
          maj = (a AND b) XOR (a AND c) XOR (b AND c);
          temp2 = S0 + maj
      in (temp1 + temp2, a, b, c, d + temp1, e, f, g))"

definition sha_chunk :: "bytes \<Rightarrow> nat \<Rightarrow> 32 word list \<Rightarrow> 32 word list" where
  "sha_chunk padded chunk h =
     (case fold (sha_round (schedule padded chunk)) [0..<64]
             (h ! 0, h ! 1, h ! 2, h ! 3, h ! 4, h ! 5, h ! 6, h ! 7) of
        (a, b, c, d, e, f, g, h_val) \<Rightarrow>
          [h ! 0 + a, h ! 1 + b, h ! 2 + c, h ! 3 + d, h ! 4 + e, h ! 5 + f, h ! 6 + g, h ! 7 + h_val])"

function sha_loop :: "bytes \<Rightarrow> nat \<Rightarrow> 32 word list \<Rightarrow> 32 word list" where
  "sha_loop padded chunk h =
     (if chunk < length padded then sha_loop padded (chunk + 64) (sha_chunk padded chunk h) else h)"
  by pat_completeness auto
termination
  by (relation "measure (\<lambda>(padded, chunk, h). length padded - chunk)") auto

declare sha_loop.simps [simp del]

text \<open>\<open>std::hex << std::setw(8) << std::setfill('0')\<close>.\<close>

definition hex_digit :: "nat \<Rightarrow> char" where
  "hex_digit n = ''0123456789abcdef'' ! n"

fun hex_number :: "nat \<Rightarrow> string" where
  "hex_number n = (if n < 16 then [hex_digit n] else hex_number (n div 16) @ [hex_digit (n mod 16)])"

declare hex_number.simps [simp del]

definition hex_word :: "32 word \<Rightarrow> string" where
  "hex_word w = (let s = hex_number (unat w) in replicate (8 - length s) CHR ''0'' @ s)"

definition computeSha256 :: "bytes \<Rightarrow> string" where
  "computeSha256 data = concat (map hex_word (sha_loop (sha_pad data) 0 sha_init))"

definition calculateSha256 :: "bytes \<Rightarrow> string" where
  "calculateSha256 data = computeSha256 data"

section \<open>FIPS 180-4\<close>

text \<open>The standard's own formulation: rotations, the recurrence for \<open>W\<close>, blocks of the padded
  message, and the chaining value folded over them.\<close>

definition fips_pad :: "bytes \<Rightarrow> bytes" where
  "fips_pad data =
     data @ [0x80] @ replicate ((119 - length data mod 64) mod 64) 0 @
     rev (le_bytes 8 (of_nat (8 * length data) :: 64 word))"

definition fips_blocks :: "bytes \<Rightarrow> 32 word list list" where
  "fips_blocks p =
     map (\<lambda>i. map (\<lambda>j. word_rcat (peek p (64 * i + 4 * j) 4)) [0..<16]) [0..<length p div 64]"

fun fips_W :: "32 word list \<Rightarrow> nat \<Rightarrow> 32 word" where
  "fips_W M t =
     (if t < 16 then M ! t
      else (word_rotr 17 (fips_W M (t - 2)) XOR word_rotr 19 (fips_W M (t - 2)) XOR
              drop_bit 10 (fips_W M (t - 2))) + fips_W M (t - 7) +
           (word_rotr 7 (fips_W M (t - 15)) XOR word_rotr 18 (fips_W M (t - 15)) XOR
              drop_bit 3 (fips_W M (t - 15))) + fips_W M (t - 16))"

declare fips_W.simps [simp del]

fun fips_round :: "32 word list \<Rightarrow> nat \<Rightarrow> sha_vars \<Rightarrow> sha_vars" where
  "fips_round M t (a, b, c, d, e, f, g, h) =
     (let T1 = h + (word_rotr 6 e XOR word_rotr 11 e XOR word_rotr 25 e) +
               ((e AND f) XOR (NOT e AND g)) + sha_k ! t + fips_W M t;
          T2 = (word_rotr 2 a XOR word_rotr 13 a XOR word_rotr 22 a) +
               ((a AND b) XOR (a AND c) XOR (b AND c))
      in (T1 + T2, a, b, c, d + T1, e, f, g))"

definition fips_compress :: "32 word list \<Rightarrow> 32 word list \<Rightarrow> 32 word list" where
  "fips_compress H M =
     (case fold (fips_round M) [0..<64] (H ! 0, H ! 1, H ! 2, H ! 3, H ! 4, H ! 5, H ! 6, H ! 7) of
        (a, b, c, d, e, f, g, h) \<Rightarrow> map2 (+) H [a, b, c, d, e, f, g, h])"

definition fips_sha256 :: "bytes \<Rightarrow> 32 word list" where
  "fips_sha256 data = foldl fips_compress sha_init (fips_blocks (fips_pad data))"

section \<open>The code against the standard\<close>

lemma rightRotate_rotr: "0 < n \<Longrightarrow> n < 32 \<Longrightarrow> rightRotate x n = word_rotr n x"
proof (rule bit_word_eqI)
  fix i assume "0 < n" "n < 32" "i < LENGTH(32)"
  moreover have "(i + n) mod 32 = (if i + n < 32 then i + n else i + n - 32)"
    using calculation by (simp add: mod_if)
  ultimately show "bit (rightRotate x n) i = bit (word_rotr n x) i"
    using bit_imp_le_length [of x "i + n"]
    by (auto simp: rightRotate_def bit_word_rotr_iff bit_or_iff bit_drop_bit_eq bit_push_bit_iff
          add.commute)
qed

lemma pad_zeros_eq:
  "pad_zeros p = p @ replicate ((120 - length p mod 64) mod 64) 0"
proof (induction p rule: pad_zeros.induct)
  case (1 p)
  show ?case
  proof (cases "length p mod 64 = 56")
    case True
    then show ?thesis by (simp add: pad_zeros.simps [of p])
  next
    case False
    then show ?thesis
      using 1 pad_measure [OF False, symmetric] by (simp add: pad_zeros.simps [of p])
  qed
qed

lemma fold_append_map: "fold (\<lambda>i p. p @ [f i]) xs p = p @ map f xs"
  by (induction xs arbitrary: p) simp_all

lemma and_0xFF_ucast: "ucast (w AND 0xFF :: 64 word) = (ucast w :: byte)"
proof -
  have "bit (0xFF :: 64 word) i" if "i < 8" for i
  proof -
    have "(0xFF :: 64 word) = mask 8" by (simp add: mask_eq_exp_minus_1)
    then show ?thesis using that by (simp only: bit_mask_iff) simp
  qed
  then show ?thesis by (intro bit_word_eqI) (auto simp: bit_ucast_iff bit_and_iff)
qed

lemma sha_pad_fips: "sha_pad data = fips_pad data"
proof -
  have "(120 - Suc (length data) mod 64) mod 64 = (119 - length data mod 64) mod 64"
    using mod_Suc [of "length data" 64] by auto
  then show ?thesis
    by (simp add: sha_pad_def fips_pad_def pad_zeros_eq fold_append_map le_bytes_def rev_map
        and_0xFF_ucast mult.commute Let_def)
qed

subsection \<open>Blocks and schedule\<close>

lemma word_rcat_le_word: "word_rcat bs = le_word (rev bs)" for bs :: bytes
proof (rule bit_word_eqI)
  fix i assume i: "i < LENGTH('a)"
  show "bit (word_rcat bs :: 'a word) i = bit (le_word (rev bs) :: 'a word) i"
    using i bit_horner_sum_uint_exp_iff [of "rev bs" i]
    by (simp add: word_rcat_def bit_word_of_int_iff bit_le_word)
qed

lemma be_word_or:
  "push_bit 24 (ucast a) OR push_bit 16 (ucast b) OR push_bit 8 (ucast c) OR ucast d =
   (word_rcat [a, b, c, d :: byte] :: 32 word)"
  by (simp add: word_rcat_le_word push_bit_or or.commute or.left_commute push_bit_push_bit)

lemma peek_four:
  "k + 4 \<le> length p \<Longrightarrow> peek p k 4 = [p ! k, p ! (k + 1), p ! (k + 2), p ! (k + 3)]"
  by (rule nth_equalityI) (auto simp: peek_def nth_Cons' less_Suc_eq numeral_eq_Suc)

definition block_at :: "bytes \<Rightarrow> nat \<Rightarrow> 32 word list" where
  "block_at p chunk = map (\<lambda>j. word_rcat (peek p (chunk + 4 * j) 4)) [0..<16]"

lemma schedule_first_block:
  "chunk + 64 \<le> length p \<Longrightarrow> schedule_first p chunk = block_at p chunk"
  by (simp add: schedule_first_def block_at_def peek_four be_word_or mult.commute)

lemma schedule_step:
  assumes "16 \<le> n" "n < 64" "length w = 64" "\<And>t. t < n \<Longrightarrow> w ! t = fips_W M t"
  shows "w ! (n - 16) + small_sigma0 (w ! (n - 15)) + w ! (n - 7) + small_sigma1 (w ! (n - 2)) =
         fips_W M n"
  using assms
  by (subst fips_W.simps)
     (simp add: small_sigma0_def small_sigma1_def rightRotate_rotr add.commute add.left_commute)

lemma schedule_loop:
  assumes "length M = 16" and "n \<le> 64" and "16 \<le> n"
  shows "let w = fold (\<lambda>i w. w[i := w ! (i - 16) + small_sigma0 (w ! (i - 15)) + w ! (i - 7) +
                        small_sigma1 (w ! (i - 2))]) [16..<n] (M @ replicate 48 0)
         in length w = 64 \<and> (\<forall>t < n. w ! t = fips_W M t)"
  using assms(3,2)
proof (induction n rule: dec_induct)
  case base
  have "fips_W M t = M ! t" if "t < 16" for t using that by (simp add: fips_W.simps)
  then show ?case using assms(1) by (simp only: Let_def) (simp add: nth_append)
next
  case (step n)
  define w where "w = fold (\<lambda>i w. w[i := w ! (i - 16) + small_sigma0 (w ! (i - 15)) +
      w ! (i - 7) + small_sigma1 (w ! (i - 2))]) [16..<n] (M @ replicate 48 0)"
  have w: "length w = 64" "\<And>t. t < n \<Longrightarrow> w ! t = fips_W M t" and n: "n < 64"
    using step by (simp_all add: w_def Let_def)
  then show ?case
    using step(1) schedule_step [OF step(1) n w]
    by (simp add: Let_def w_def [symmetric] nth_list_update less_Suc_eq)
qed

lemma schedule_nth:
  assumes "chunk + 64 \<le> length p" and "t < 64"
  shows "schedule p chunk ! t = fips_W (block_at p chunk) t"
proof -
  have "length (block_at p chunk) = 16" by (simp add: block_at_def)
  then show ?thesis
    using schedule_loop [of "block_at p chunk" 64] assms
    by (simp only: schedule_def schedule_first_block Let_def)
qed

subsection \<open>Rounds, chunks and the digest\<close>

lemma sha_round_fips:
  assumes "i < 64" and "chunk + 64 \<le> length p"
  shows "sha_round (schedule p chunk) i x = fips_round (block_at p chunk) i x"
  by (cases "(schedule p chunk, i, x)" rule: sha_round.cases)
     (simp add: Let_def schedule_nth [OF assms(2,1)] rightRotate_rotr)

lemma sha_chunk_fips:
  assumes "chunk + 64 \<le> length p" and "length h = 8"
  shows "sha_chunk p chunk h = fips_compress h (block_at p chunk)"
proof -
  have "fold (sha_round (schedule p chunk)) [0..<64] x = fold (fips_round (block_at p chunk)) [0..<64] x" for x
    by (rule fold_cong) (simp_all add: sha_round_fips [OF _ assms(1)] fun_eq_iff)
  moreover obtain h0 h1 h2 h3 h4 h5 h6 h7 where "h = [h0, h1, h2, h3, h4, h5, h6, h7]"
    using assms(2) by (auto simp: length_Suc_conv numeral_eq_Suc)
  ultimately show ?thesis
    by (simp add: sha_chunk_def fips_compress_def split: prod.split)
qed

lemma length_fips_compress [simp]: "length h = 8 \<Longrightarrow> length (fips_compress h M) = 8"
  by (simp add: fips_compress_def split: prod.split)

lemma sha_loop_blocks:
  assumes "length p = 64 * n" and "length h = 8" and "k \<le> n"
  shows "sha_loop p (64 * k) h = foldl fips_compress h (map (\<lambda>i. block_at p (64 * i)) [k..<n])"
  using assms(3,2)
proof (induction "n - k" arbitrary: k h)
  case 0
  then show ?case using assms(1) by (simp add: sha_loop.simps)
next
  case (Suc d)
  then have k: "k < n" by simp
  then have "sha_chunk p (64 * k) h = fips_compress h (block_at p (64 * k))"
    using Suc assms(1) by (intro sha_chunk_fips) auto
  then have "sha_loop p (64 * k) h =
             sha_loop p (64 * Suc k) (fips_compress h (block_at p (64 * k)))"
    using k assms(1) by (subst sha_loop.simps) (simp add: add.commute)
  also have "\<dots> = foldl fips_compress (fips_compress h (block_at p (64 * k)))
                    (map (\<lambda>i. block_at p (64 * i)) [Suc k..<n])"
    using Suc.hyps(2) Suc.prems k by (intro Suc.hyps(1)) auto
  finally show ?case using k by (simp add: upt_conv_Cons)
qed

lemma length_fips_pad: "length (fips_pad data) mod 64 = 0"
proof -
  define r where "r = length data mod 64"
  have r: "r < 64" by (simp add: r_def)
  have "(length data + y) mod 64 = (r + y) mod 64" for y
    by (simp add: r_def mod_add_left_eq)
  then have "length (fips_pad data) mod 64 = (r + 9 + (119 - r) mod 64) mod 64"
    by (simp add: fips_pad_def r_def [symmetric] add.assoc)
  also have "\<dots> = (r + 9 + (119 - r)) mod 64" by (simp add: mod_simps)
  also have "\<dots> = 0" using r by simp
  finally show ?thesis .
qed

lemma sha_loop_fips: "sha_loop (sha_pad data) 0 sha_init = fips_sha256 data"
proof -
  obtain n where n: "length (fips_pad data) = 64 * n"
    using length_fips_pad [of data] by (auto elim: dvdE simp: mod_0_imp_dvd)
  then show ?thesis
    using sha_loop_blocks [of "fips_pad data" n sha_init 0]
    by (simp add: sha_pad_fips fips_sha256_def fips_blocks_def block_at_def sha_init_def)
qed

lemma length_fips_sha256: "length (fips_sha256 data) = 8"
proof -
  have "length (foldl fips_compress h Ms) = 8" if "length h = 8" for h Ms
    using that by (induction Ms arbitrary: h) simp_all
  then show ?thesis by (simp add: fips_sha256_def sha_init_def)
qed

lemma hex_digit_in: "n < 16 \<Longrightarrow> hex_digit n \<in> set ''0123456789abcdef''"
  unfolding hex_digit_def by (rule nth_mem) simp

lemma hex_number_digits: "set (hex_number n) \<subseteq> set ''0123456789abcdef''"
proof (induction n rule: hex_number.induct)
  case (1 n)
  show ?case
  proof (cases "n < 16")
    case True
    then show ?thesis using hex_digit_in [OF True] by (simp only: hex_number.simps [of n]) simp
  next
    case False
    then show ?thesis
      using 1 hex_digit_in [of "n mod 16"] by (simp only: hex_number.simps [of n]) simp
  qed
qed

lemma length_hex_number: "n < 16 ^ Suc k \<Longrightarrow> length (hex_number n) \<le> Suc k"
proof (induction k arbitrary: n)
  case 0
  then show ?case by (simp add: hex_number.simps)
next
  case (Suc k)
  have "n div 16 < 16 ^ Suc k" using Suc.prems by (simp add: less_mult_imp_div_less mult.commute)
  then show ?case using Suc.IH [of "n div 16"] by (simp add: hex_number.simps [of n])
qed

lemma length_hex_word [simp]: "length (hex_word w) = 8"
  using length_hex_number [of "unat w" 7] unat32_bound [of w] by (simp add: hex_word_def Let_def)

lemma hex_word_digits: "set (hex_word w) \<subseteq> set ''0123456789abcdef''"
  using hex_number_digits [of "unat w"] by (auto simp: hex_word_def Let_def)

lemma length_concat_hex: "length (concat (map hex_word ws)) = 8 * length ws"
  by (induction ws) simp_all

section \<open>Properties\<close>


end
