(* ===== verification/File_Transfer.thy ===== *)
theory File_Transfer
  imports Sha_Digest "HOL-Library.List_Lexorder" "HOL-Library.Char_ord" "HOL-Library.Product_Lexorder" "HOL-Library.Multiset"
begin

text \<open>
  \<open>rap::file_transfer::FileTransferEngine\<close> (\<open>libs/file_transfer\<close>): listing a directory,
  cutting a file into chunks, writing a chunk at its offset and checking a digest. The file
  system of the standard library is a record (\<open>store\<close>): readable regular files with their
  contents, directories with their entries, and which missing files can be created. A loop of
  the code that may not end is a partial function, whose value \<open>None\<close> is not returning.
\<close>

section \<open>Data\<close>

record DirectoryItem =
  item_name :: string
  item_size :: "64 word"
  isDirectory :: bool
  modifiedTime :: "64 word"

record FileChunk =
  transferId :: string
  chunkIndex :: "32 word"
  chunk_offset :: nat
  totalSize :: nat
  chunk_data :: bytes
  sha256Hash :: string
  isLastChunk :: bool

datatype TransferControlAction = Pause | Resume | Cancel

text \<open>A directory entry as \<open>std::filesystem\<close> reports it; its \<open>file_size\<close> is asked for only
  when it is a regular file.\<close>

record dir_entry =
  filename :: string
  is_directory :: bool
  is_regular_file :: bool
  file_size :: "64 word"
  last_write_time :: "64 word"

record store =
  files :: "string \<rightharpoonup> bytes"
  dirs :: "string \<rightharpoonup> dir_entry list"
  current_path :: string
  creatable :: "string \<Rightarrow> bool"

section \<open>Operations\<close>

definition calculateFileSha256 :: "store \<Rightarrow> string \<Rightarrow> string" where
  "calculateFileSha256 fs filePath =
     (case files fs filePath of None \<Rightarrow> '''' | Some buffer \<Rightarrow> computeSha256 buffer)"

text \<open>The comparator given to \<open>std::sort\<close>, and a sort by it.\<close>

definition item_less :: "DirectoryItem \<Rightarrow> DirectoryItem \<Rightarrow> bool" where
  "item_less a b =
     (if isDirectory a \<noteq> isDirectory b then isDirectory a > isDirectory b
      else item_name a < item_name b)"

fun insert_before :: "('a \<Rightarrow> 'a \<Rightarrow> bool) \<Rightarrow> 'a \<Rightarrow> 'a list \<Rightarrow> 'a list" where
  "insert_before lt x [] = [x]"
| "insert_before lt x (y # ys) = (if lt y x then y # insert_before lt x ys else x # y # ys)"

definition std_sort :: "('a \<Rightarrow> 'a \<Rightarrow> bool) \<Rightarrow> 'a list \<Rightarrow> 'a list" where
  "std_sort lt xs = foldr (insert_before lt) xs []"

definition directory_item :: "dir_entry \<Rightarrow> DirectoryItem" where
  "directory_item entry =
     \<lparr>item_name = filename entry,
      item_size = (if \<not> is_directory entry \<and> is_regular_file entry then file_size entry else 0),
      isDirectory = is_directory entry,
      modifiedTime = last_write_time entry\<rparr>"

definition listDirectory :: "store \<Rightarrow> string \<Rightarrow> DirectoryItem list" where
  "listDirectory fs dirPath =
     (let targetPath = (if dirPath = '''' then current_path fs else dirPath)
      in case dirs fs targetPath of
           None \<Rightarrow> []
         | Some entries \<Rightarrow> std_sort item_less (map directory_item entries))"

definition make_chunk :: "string \<Rightarrow> bytes \<Rightarrow> nat \<Rightarrow> nat \<Rightarrow> 32 word \<Rightarrow> FileChunk" where
  "make_chunk tid content currentChunkSize offset index =
     (let d = peek content offset currentChunkSize
      in \<lparr>transferId = tid, chunkIndex = index, chunk_offset = offset,
          totalSize = length content, chunk_data = d, sha256Hash = calculateSha256 d,
          isLastChunk = (offset + currentChunkSize \<ge> length content)\<rparr>)"

partial_function (option) chunk_loop ::
    "string \<Rightarrow> bytes \<Rightarrow> nat \<Rightarrow> nat \<Rightarrow> 32 word \<Rightarrow> FileChunk list \<Rightarrow> FileChunk list option" where
  "chunk_loop tid content chunkSize offset index chunks =
     (if offset < length content
      then (let currentChunkSize = min chunkSize (length content - offset)
            in chunk_loop tid content chunkSize (offset + currentChunkSize) (index + 1)
                 (chunks @ [make_chunk tid content currentChunkSize offset index]))
      else Some chunks)"

definition prepareFileChunks :: "store \<Rightarrow> string \<Rightarrow> string \<Rightarrow> nat \<Rightarrow> FileChunk list option" where
  "prepareFileChunks fs tid filePath chunkSize =
     (case files fs filePath of
        None \<Rightarrow> Some []
      | Some content \<Rightarrow> chunk_loop tid content chunkSize 0 0 [])"

text \<open>Seeking past the end and writing there leaves a hole, which reads as zero bytes.\<close>

definition write_at :: "bytes \<Rightarrow> nat \<Rightarrow> bytes \<Rightarrow> bytes" where
  "write_at content offset d =
     (if d = [] then content
      else poke (content @ replicate (offset - length content) 0) offset d)"

definition writeChunkToFile :: "store \<Rightarrow> string \<Rightarrow> nat \<Rightarrow> bytes \<Rightarrow> bool \<times> store" where
  "writeChunkToFile fs filePath offset d =
     (let opened = (if offset = 0
                    then (if files fs filePath \<noteq> None \<or> creatable fs filePath then Some [] else None)
                    else files fs filePath)
      in case opened of
           None \<Rightarrow> (False, fs)
         | Some content \<Rightarrow>
             (True, fs\<lparr>files := (files fs)(filePath \<mapsto> write_at content offset d)\<rparr>))"

definition verifyIntegrity :: "store \<Rightarrow> string \<Rightarrow> string \<Rightarrow> bool" where
  "verifyIntegrity fs filePath expectedSha256 =
     (let actualHash = calculateFileSha256 fs filePath in actualHash = expectedSha256)"

text \<open>The receiving side as \<open>testFileChunkingAndAssembly\<close> drives it: each chunk written at its
  own offset.\<close>

definition write_chunks :: "string \<Rightarrow> FileChunk list \<Rightarrow> bool \<times> store \<Rightarrow> bool \<times> store" where
  "write_chunks filePath =
     fold (\<lambda>c (ok, fs). case writeChunkToFile fs filePath (chunk_offset c) (chunk_data c) of
                          (ok', fs') \<Rightarrow> (ok \<and> ok', fs'))"

section \<open>Sorting\<close>

definition item_key :: "DirectoryItem \<Rightarrow> bool \<times> string" where
  "item_key i = (\<not> isDirectory i, item_name i)"

lemma item_less_key: "item_less a b \<longleftrightarrow> item_key a < item_key b"
  by (auto simp: item_less_def item_key_def less_prod_simp)

lemma std_sort_key: "std_sort (\<lambda>a b. f a < f b) xs = sort_key f xs"
  for f :: "'a \<Rightarrow> 'b::linorder"
proof -
  have "insert_before (\<lambda>a b. f a < f b) = insort_key f"
  proof (intro ext)
    fix x ys
    show "insert_before (\<lambda>a b. f a < f b) x ys = insort_key f x ys"
      by (induction ys) auto
  qed
  then show ?thesis by (simp add: std_sort_def sort_key_def)
qed

lemma std_sort_item: "std_sort item_less xs = sort_key item_key xs"
proof -
  have eq: "item_less = (\<lambda>a b. item_key a < item_key b)"
    by (simp add: item_less_key fun_eq_iff)
  show ?thesis unfolding eq by (rule std_sort_key)
qed

lemma sorted_item: "sorted_wrt (\<lambda>a b. \<not> item_less b a) xs \<longleftrightarrow> sorted (map item_key xs)"
  by (simp add: item_less_key not_less sorted_wrt_map)

lemma sorted_permutation_unique:
  fixes f :: "'a \<Rightarrow> 'b::linorder"
  assumes "mset ys = mset xs" and "distinct (map f xs)" and "sorted (map f ys)"
  shows "ys = sort_key f xs"
proof -
  have "set ys = set (sort_key f xs)" using assms(1) by (metis mset_eq_setD set_sort)
  moreover have "inj_on f (set xs)" using assms(2) by (simp add: distinct_map)
  moreover have "map f ys = map f (sort_key f xs)"
    using assms(1,3)
    by (metis mset_map mset_sort properties_for_sort sorted_sort_key)
  ultimately show ?thesis
    using assms(1) by (metis Un_absorb map_inj_on set_mset_mset)
qed

section \<open>Chunks\<close>

definition chunk_count :: "nat \<Rightarrow> nat \<Rightarrow> nat" where
  "chunk_count len cs = (len + (cs - 1)) div cs"

definition nth_chunk :: "string \<Rightarrow> bytes \<Rightarrow> nat \<Rightarrow> nat \<Rightarrow> FileChunk" where
  "nth_chunk tid content cs i =
     make_chunk tid content (min cs (length content - i * cs)) (i * cs) (of_nat i)"

lemma less_chunk_count: "0 < cs \<Longrightarrow> k < chunk_count len cs \<longleftrightarrow> k * cs < len"
proof -
  assume "0 < cs"
  then have "k < chunk_count len cs \<longleftrightarrow> Suc k * cs \<le> len + (cs - 1)"
    by (simp add: chunk_count_def Suc_le_eq [symmetric] less_eq_div_iff_mult_less_eq)
  also have "\<dots> \<longleftrightarrow> k * cs < len" using \<open>0 < cs\<close> by auto
  finally show ?thesis .
qed

lemma chunk_loop_eq:
  assumes "0 < cs" and "k \<le> chunk_count (length content) cs"
  shows "chunk_loop tid content cs (min (k * cs) (length content)) (of_nat k) acc =
         Some (acc @ map (nth_chunk tid content cs) [k..<chunk_count (length content) cs])"
  using assms(2)
proof (induction "chunk_count (length content) cs - k" arbitrary: k acc)
  case 0
  then have "\<not> k * cs < length content" using less_chunk_count [OF assms(1)] by auto
  then show ?case using 0 by (simp add: chunk_loop.simps)
next
  case (Suc d)
  then have k: "k < chunk_count (length content) cs" by simp
  then have off: "k * cs < length content" using less_chunk_count [OF assms(1)] by simp
  then have "min (k * cs) (length content) = k * cs"
    and "k * cs + min cs (length content - k * cs) = min (Suc k * cs) (length content)" by auto
  then have "chunk_loop tid content cs (min (k * cs) (length content)) (of_nat k) acc =
    chunk_loop tid content cs (min (Suc k * cs) (length content)) (of_nat (Suc k))
      (acc @ [nth_chunk tid content cs k])"
    using off by (subst chunk_loop.simps) (simp add: nth_chunk_def add.commute)
  also have "\<dots> = Some ((acc @ [nth_chunk tid content cs k]) @
                map (nth_chunk tid content cs) [Suc k..<chunk_count (length content) cs])"
    using Suc.hyps(2) k by (intro Suc.hyps(1)) auto
  finally show ?case using k by (simp add: upt_conv_Cons)
qed

lemma prepare_chunks_eq:
  "0 < cs \<Longrightarrow> files fs p = Some content \<Longrightarrow>
   prepareFileChunks fs tid p cs =
     Some (map (nth_chunk tid content cs) [0..<chunk_count (length content) cs])"
  using chunk_loop_eq [of cs 0 content tid "[]"] by (simp add: prepareFileChunks_def)

lemma chunk_loop_zero:
  assumes "chunk_loop tid content 0 offset index acc = Some r"
  shows "length content \<le> offset"
proof -
  let ?P = "\<lambda>(tid :: string) (content :: bytes) (chunkSize :: nat) offset (index :: 32 word)
               (acc :: FileChunk list) (r :: FileChunk list).
              chunkSize = 0 \<longrightarrow> length content \<le> offset"
  have "?P tid content 0 offset index acc r"
  proof (rule chunk_loop.raw_induct [where P = ?P, OF _ assms])
    fix f tid content chunkSize offset index chunks r
    assume IH: "\<And>tid content chunkSize offset index chunks r.
        f tid content chunkSize offset index chunks = Some r \<Longrightarrow> ?P tid content chunkSize offset index chunks r"
      and "(if offset < length content
        then let currentChunkSize = min chunkSize (length content - offset)
          in f tid content chunkSize (offset + currentChunkSize) (index + 1)
               (chunks @ [make_chunk tid content currentChunkSize offset index])
        else Some chunks) = Some r"
    then show "?P tid content chunkSize offset index chunks r"
      by (cases "offset < length content") (auto simp: Let_def dest!: IH)
  qed
  then show ?thesis by simp
qed

lemma nth_chunk_data: "chunk_data (nth_chunk tid content cs i) = peek content (i * cs) cs"
  by (simp add: nth_chunk_def make_chunk_def Let_def peek_def min_def)

lemma nth_chunk_offset: "chunk_offset (nth_chunk tid content cs i) = i * cs"
  by (simp add: nth_chunk_def make_chunk_def Let_def)

lemma nth_chunk_last:
  "0 < cs \<Longrightarrow> i < chunk_count (length content) cs \<Longrightarrow>
   isLastChunk (nth_chunk tid content cs i) \<longleftrightarrow> Suc i = chunk_count (length content) cs"
  using less_chunk_count [of cs i "length content"] less_chunk_count [of cs "Suc i" "length content"]
  by (auto simp: nth_chunk_def make_chunk_def Let_def)

lemma concat_chunks:
  "concat (map (\<lambda>i. peek content (i * cs) cs) [0..<k]) = take (k * cs) content"
proof (induction k)
  case (Suc k)
  have "take (Suc k * cs) content = take (k * cs) content @ take cs (drop (k * cs) content)"
    by (simp only: mult_Suc add.commute [of cs "k * cs"] take_add)
  then show ?case using Suc by (simp add: peek_def)
qed simp

lemma take_all_chunks: "0 < cs \<Longrightarrow> take (chunk_count (length content) cs * cs) content = content"
  using less_chunk_count [of cs "chunk_count (length content) cs" "length content"] by simp

section \<open>Writing\<close>

lemma write_at_next: "take k content \<noteq> content \<Longrightarrow>
  write_at (take k content) k (peek content k n) = take (k + n) content"
  by (auto simp: write_at_def poke_def peek_def take_add)

lemma write_at_nth:
  "i < length content \<Longrightarrow> i < offset \<or> offset + length d \<le> i \<Longrightarrow> write_at content offset d ! i = content ! i"
  by (auto simp: write_at_def poke_def nth_append min_def)

lemma write_at_zero: "write_at [] 0 d = d"
  by (simp add: write_at_def poke_def)

lemma write_at_block: "peek (write_at content offset d) offset (length d) = d"
  by (cases "d = []") (simp_all add: write_at_def poke_def peek_def)

lemma write_chunks_snoc:
  "write_chunks p (cs @ [c]) x =
     (case write_chunks p cs x of (ok, fs) \<Rightarrow>
        case writeChunkToFile fs p (chunk_offset c) (chunk_data c) of (ok', fs') \<Rightarrow> (ok \<and> ok', fs'))"
  by (simp add: write_chunks_def)

lemma write_chunks_prefix:
  assumes "0 < cs" and "0 < k" and "k \<le> chunk_count (length content) cs"
    and "files fs p \<noteq> None \<or> creatable fs p"
  shows "write_chunks p (map (nth_chunk tid content cs) [0..<k]) (True, fs) =
         (True, fs\<lparr>files := (files fs)(p \<mapsto> take (k * cs) content)\<rparr>)"
  using assms(2,3)
proof (induction k)
  case (Suc k)
  show ?case
  proof (cases "k = 0")
    case True
    then show ?thesis
      using assms(4)
      by (auto simp: write_chunks_def writeChunkToFile_def nth_chunk_data nth_chunk_offset
          write_at_zero peek_def fun_upd_def)
  next
    case False
    then have "k * cs < length content" 
      using Suc.prems less_chunk_count [OF assms(1)] by (simp add: Suc_le_eq)
    then have "take (k * cs) content \<noteq> content"
      by (metis length_take min_less_iff_conj order_less_irrefl min.absorb3)
    then show ?thesis
      using Suc False assms(1)
      by (auto simp: write_chunks_snoc writeChunkToFile_def nth_chunk_data nth_chunk_offset
          write_at_next add.commute fun_upd_def intro!: arg_cong [where f = "\<lambda>m. fs\<lparr>files := m\<rparr>"])
  qed
qed simp

section \<open>Properties\<close>

text \<open>
  C13: \<open>prepareFileChunks\<close> with a positive chunk size returns, for every readable file: the chunks
  are consecutive, their data concatenated is the file, the \<open>i\<close>-th starts at \<open>i\<close> times the chunk
  size with index \<open>i\<close> (modulo 2^32), carries the digest of its own data and the total size, and
  exactly the final one is marked last.
\<close>

theorem prepareFileChunks_partition:
  assumes "0 < chunkSize" and "files fs path = Some content"
  shows "\<exists>chunks. prepareFileChunks fs tid path chunkSize = Some chunks \<and>
           concat (map chunk_data chunks) = content \<and>
           (\<forall>i < length chunks. let c = chunks ! i in
              chunk_offset c = i * chunkSize \<and> chunkIndex c = of_nat i \<and>
              chunk_data c = take chunkSize (drop (chunk_offset c) content) \<and>
              sha256Hash c = calculateSha256 (chunk_data c) \<and>
              totalSize c = length content \<and> transferId c = tid \<and>
              (isLastChunk c \<longleftrightarrow> Suc i = length chunks))"
proof -
  let ?n = "chunk_count (length content) chunkSize"
  let ?cs = "map (nth_chunk tid content chunkSize) [0..<?n]"
  have "concat (map chunk_data ?cs) = content"
    using concat_chunks [of content chunkSize ?n] take_all_chunks [OF assms(1), of content]
    by (simp add: comp_def nth_chunk_data)
  moreover have "chunkIndex (nth_chunk tid content chunkSize i) = of_nat i \<and>
      sha256Hash (nth_chunk tid content chunkSize i) =
        calculateSha256 (chunk_data (nth_chunk tid content chunkSize i)) \<and>
      totalSize (nth_chunk tid content chunkSize i) = length content \<and>
      transferId (nth_chunk tid content chunkSize i) = tid" for i
    by (simp add: nth_chunk_def make_chunk_def Let_def)
  ultimately show ?thesis
    using prepare_chunks_eq [OF assms, of tid]
    by (intro exI [of _ ?cs])
       (simp add: Let_def nth_chunk_offset nth_chunk_last [OF assms(1)]
          nth_chunk_data [unfolded peek_def])
qed

definition demo_store :: store where
  "demo_store = \<lparr>files = [''src'' \<mapsto> [1, 2, 3]], dirs = Map.empty, current_path = ''.'',
                 creatable = (\<lambda>p. p = ''dst'')\<rparr>"

theorem prepareFileChunks_partition_witness:
  "\<exists>chunks. prepareFileChunks demo_store ''t'' ''src'' 2 = Some chunks \<and>
     concat (map chunk_data chunks) = [1, 2, 3]"
  using prepareFileChunks_partition [of 2 demo_store "''src''" "[1, 2, 3]" "''t''"]
  by (auto simp: demo_store_def)




text \<open>
  A chunk with offset 0 opens the file truncated, so whatever was written before it is lost:
  after writing any chunks and then a first chunk, the file holds the first chunk only.
\<close>

theorem late_first_chunk_discards:
  assumes "files fs path \<noteq> None" and "chunk_offset c = 0"
  shows "case write_chunks path (cs @ [c]) (True, fs) of
           (ok, fs') \<Rightarrow> files fs' path = Some (chunk_data c)"
proof -
  have "files (snd (write_chunks path cs x)) path \<noteq> None" if "files (snd x) path \<noteq> None" for x
    using that
    by (induction cs rule: rev_induct)
       (auto simp: write_chunks_snoc writeChunkToFile_def write_chunks_def
         split: prod.splits option.splits)
  then have "files (snd (write_chunks path cs (True, fs))) path \<noteq> None" using assms(1) by simp
  then show ?thesis
    using assms(2)
    by (auto simp: write_chunks_snoc writeChunkToFile_def write_at_zero write_at_def poke_def
        split: prod.splits)
qed

theorem late_first_chunk_discards_witness:
  "case write_chunks ''src'' ([make_chunk ''t'' [1, 2, 3, 4] 2 2 1] @
          [make_chunk ''t'' [1, 2, 3, 4] 2 0 0]) (True, demo_store) of
     (ok, fs') \<Rightarrow> files fs' ''src'' = Some [1, 2]"
  using late_first_chunk_discards [of demo_store "''src''" "make_chunk ''t'' [1, 2, 3, 4] 2 0 0"
      "[make_chunk ''t'' [1, 2, 3, 4] 2 2 1]"]
  by (simp add: demo_store_def make_chunk_def Let_def peek_def)

text \<open>
  \<open>verifyIntegrity\<close> accepts exactly the FIPS 180-4 digest of the file's contents; a file that
  cannot be opened is accepted against the empty string.
\<close>

theorem verifyIntegrity_iff:
  "verifyIntegrity fs path expected \<longleftrightarrow>
     (case files fs path of
        None \<Rightarrow> expected = ''''
      | Some content \<Rightarrow> expected = concat (map hex_word (fips_sha256 content)))"
  by (auto simp: verifyIntegrity_def calculateFileSha256_def computeSha256_def sha_loop_fips
      split: option.split)


definition demo_dir :: store where
  "demo_dir = \<lparr>files = Map.empty,
     dirs = [''.'' \<mapsto> [\<lparr>filename = ''a'', is_directory = False, is_regular_file = True,
                        file_size = 3, last_write_time = 7\<rparr>,
                       \<lparr>filename = ''z'', is_directory = True, is_regular_file = False,
                        file_size = 0, last_write_time = 8\<rparr>]],
     current_path = ''.'', creatable = (\<lambda>p. False)\<rparr>"


end
