(* ===== verification/Client_Features.thy ===== *)
theory Client_Features
  imports Session_Client File_Transfer Desk_Identity "HOL-Library.Signed_Division"
begin

text \<open>
  The rest of \<open>SessionClient\<close> (\<open>apps/client/src/SessionClient.cpp\<close>): its construction, the file
  browser and transfers, telemetry, privacy mode, recording, the transfer queue, Wake-on-LAN and
  the small settings. The state is the session of \<open>Session_Client\<close> (\<open>core\<close>) with the remaining
  members of the class and the file system the file operations run on (\<open>disk\<close>). A \<open>double\<close> is a
  rational number: rounding is not modelled. Qt's file names, number formatting and the clock
  are arguments (\<open>feature_env\<close>, \<open>startup\<close>).
\<close>

section \<open>State\<close>

type_synonym double = rat

record dir_row =
  row_name :: QString
  row_size :: "64 word"
  row_isDir :: bool
  row_modifiedTime :: "64 word"

record monitor_row =
  mon_monitorId :: int
  mon_name :: QString
  mon_width :: int
  mon_height :: int
  mon_offsetX :: int
  mon_offsetY :: int
  mon_isPrimary :: bool

record queue_item =
  q_fileName :: QString
  q_localPath :: QString
  q_remotePath :: QString
  q_isUpload :: bool
  q_status :: QString
  q_progress :: double

record features =
  core :: session
  disk :: store
  p2pId :: QString
  hostAgentRunning :: bool
  agent_launched :: bool
  transferProgress :: double
  transferStatus :: QString
  transferSpeed :: QString
  directoryList :: "dir_row list"
  currentRemotePath :: QString
  localDirectoryList :: "dir_row list"
  currentLocalPath :: QString
  isTransferPaused :: bool
  currentTransferBytes :: "64 word"
  totalTransferBytes :: "64 word"
  availableMonitors :: "monitor_row list"
  currentMonitorId :: int
  fps :: int
  latencyMs :: int
  bitrate :: double
  lastFrameCount :: "64 word"
  lastByteCount :: "64 word"
  totalBytesReceived :: "64 word"
  privacyMode :: bool
  audioVolume :: double
  isRecording :: bool
  recordingDurationSec :: int
  recordingTimer :: bool
  isPipMode :: bool
  currentLanguage :: QString
  transferQueue :: "queue_item list"
  bandwidthCapMbps :: double
  datagrams :: "bytes list"

record feature_env =
  fe_client :: client_env
  base_name :: "QString \<Rightarrow> QString"
  number_f2 :: "double \<Rightarrow> QString"
  clock :: "nat \<Rightarrow> int"

abbreviation fe_qt :: "feature_env \<Rightarrow> qt" where
  "fe_qt env \<equiv> client_qt (fe_client env)"

definition toStdString :: "qt \<Rightarrow> QString \<Rightarrow> string" where
  "toStdString Q s = map (\<lambda>b. char_of (unat b)) (toUtf8 Q s)"

definition fromStdString :: "qt \<Rightarrow> string \<Rightarrow> QString" where
  "fromStdString Q s = fromUtf8 Q (map of_char s)"

section \<open>Construction\<close>

record startup =
  machine_id :: "bytes option"
  trim_bytes :: "bytes \<Rightarrow> bytes"
  host_names :: bytes
  sha256 :: "bytes \<Rightarrow> bytes"
  port_answers :: bool
  history_on_disk :: history_file
  history_opens :: bool
  day_before :: QString
  two_days_before :: QString
  start_disk :: store

definition hardwareData :: "startup \<Rightarrow> bytes" where
  "hardwareData su =
     (let d = (case machine_id su of Some content \<Rightarrow> trim_bytes su content | None \<Rightarrow> [])
      in if d = [] then host_names su else d)"

definition initial_monitors :: "monitor_row list" where
  "initial_monitors =
     [\<lparr>mon_monitorId = 0, mon_name = qstr ''Primary Display'', mon_width = 1920, mon_height = 1080,
       mon_offsetX = 0, mon_offsetY = 0, mon_isPrimary = True\<rparr>,
      \<lparr>mon_monitorId = 1, mon_name = qstr ''Secondary Display'', mon_width = 2560, mon_height = 1440,
       mon_offsetX = 1920, mon_offsetY = 0, mon_isPrimary = False\<rparr>]"

definition SessionClient :: "startup \<Rightarrow> features" where
  "SessionClient su =
     \<lparr>core = loadConnectionHistory (history_opens su) (history_on_disk su) (day_before su) (two_days_before su) new_session,
      disk = start_disk su,
      p2pId = qstr (desk_id (sha256 su (hardwareData su))),
      hostAgentRunning = True, agent_launched = (\<not> port_answers su),
      transferProgress = 0, transferStatus = qstr ''Idle'', transferSpeed = qstr ''0 KB/s'',
      directoryList = [], currentRemotePath = qstr ''.'', localDirectoryList = [],
      currentLocalPath = qstr ''.'', isTransferPaused = False, currentTransferBytes = 0,
      totalTransferBytes = 0, availableMonitors = initial_monitors, currentMonitorId = 0,
      fps = 0, latencyMs = 0, bitrate = 0, lastFrameCount = 0, lastByteCount = 0,
      totalBytesReceived = 0, privacyMode = False, audioVolume = 4 / 5, isRecording = False,
      recordingDurationSec = 0, recordingTimer = False, isPipMode = False,
      currentLanguage = qstr ''English'', transferQueue = [], bandwidthCapMbps = 0,
      datagrams = []\<rparr>"

section \<open>Browsing\<close>

definition dir_rows :: "qt \<Rightarrow> store \<Rightarrow> QString \<Rightarrow> dir_row list" where
  "dir_rows Q fs path =
     map (\<lambda>item. \<lparr>row_name = fromStdString Q (item_name item), row_size = item_size item,
                  row_isDir = isDirectory item, row_modifiedTime = modifiedTime item\<rparr>)
       (listDirectory fs (toStdString Q path))"

definition requestDirectoryListing :: "feature_env \<Rightarrow> QString \<Rightarrow> features \<Rightarrow> features" where
  "requestDirectoryListing env path st =
     (let st = st\<lparr>currentRemotePath := (if path = [] then qstr ''.'' else path)\<rparr>
      in st\<lparr>directoryList := dir_rows (fe_qt env) (disk st) (currentRemotePath st)\<rparr>)"

definition requestLocalDirectoryListing :: "feature_env \<Rightarrow> QString \<Rightarrow> features \<Rightarrow> features" where
  "requestLocalDirectoryListing env path st =
     (let st = st\<lparr>currentLocalPath := (if path = [] then qstr ''.'' else path)\<rparr>
      in st\<lparr>localDirectoryList := dir_rows (fe_qt env) (disk st) (currentLocalPath st)\<rparr>)"

text \<open>\<open>std::filesystem::remove_all\<close> on the store: the path, everything below it, and the directory
  entries that name what is gone. Errors are ignored (\<open>std::error_code\<close>).\<close>

definition removed :: "string \<Rightarrow> string \<Rightarrow> bool" where
  "removed path p \<longleftrightarrow> p = path \<or> take (length path + 1) p = path @ ''/''"

definition remove_all :: "string \<Rightarrow> store \<Rightarrow> store" where
  "remove_all path fs =
     fs\<lparr>files := (\<lambda>p. if removed path p then None else files fs p),
        dirs := (\<lambda>d. if removed path d then None
                      else map_option (filter (\<lambda>e. \<not> removed path (d @ ''/'' @ filename e))) (dirs fs d))\<rparr>"

definition deleteLocalFile :: "feature_env \<Rightarrow> QString \<Rightarrow> features \<Rightarrow> features" where
  "deleteLocalFile env path st =
     (if path = [] then st
      else
        let st = st\<lparr>disk := remove_all (toStdString (fe_qt env) path) (disk st)\<rparr>;
            st = st\<lparr>transferStatus := qstr ''Deleted local item: '' @ base_name env path\<rparr>
        in requestLocalDirectoryListing env (currentLocalPath st) st)"

definition deleteRemoteFile :: "feature_env \<Rightarrow> QString \<Rightarrow> features \<Rightarrow> features" where
  "deleteRemoteFile env path st =
     (if path = [] then st
      else
        let st = st\<lparr>disk := remove_all (toStdString (fe_qt env) path) (disk st)\<rparr>;
            st = st\<lparr>transferStatus := qstr ''Deleted remote item: '' @ base_name env path\<rparr>
        in requestDirectoryListing env (currentRemotePath st) st)"

section \<open>Transfers\<close>

definition elapsed_seconds :: "feature_env \<Rightarrow> nat \<Rightarrow> int" where
  "elapsed_seconds env i = max 1 ((clock env i - clock env 0) div 1000)"

text \<open>One pass of the loop over the chunks; the clock is read once before it and once per chunk.\<close>

fun transfer_loop :: "feature_env \<Rightarrow> nat \<Rightarrow> FileChunk list \<Rightarrow> features \<Rightarrow> features" where
  "transfer_loop env i [] st = st"
| "transfer_loop env i (chunk # chunks) st =
     (if isTransferPaused st then st
      else
        let st = st\<lparr>currentTransferBytes := currentTransferBytes st + of_nat (length (chunk_data chunk))\<rparr>;
            st = st\<lparr>transferProgress :=
                      of_nat (unat (currentTransferBytes st)) / of_nat (unat (totalTransferBytes st))\<rparr>;
            mbps = of_nat (unat (currentTransferBytes st)) / (1024 * 1024) / of_int (elapsed_seconds env i)
        in transfer_loop env (i + 1) chunks (st\<lparr>transferSpeed := number_f2 env mbps @ qstr '' MB/s''\<rparr>))"

definition startFileUpload :: "feature_env \<Rightarrow> QString \<Rightarrow> QString \<Rightarrow> features \<Rightarrow> features option" where
  "startFileUpload env localPath remotePath st =
     (if localPath = [] then Some st
      else
        let st = st\<lparr>transferStatus := qstr ''Uploading '' @ base_name env localPath @ qstr ''...'',
                    transferProgress := 0, isTransferPaused := False\<rparr>;
            txId = ''tx-'' @ toStdString (fe_qt env) (qnumber (now_ms (fe_client env)))
        in case prepareFileChunks (disk st) txId (toStdString (fe_qt env) localPath) (256 * 1024) of
             None \<Rightarrow> None
           | Some chunks \<Rightarrow>
               if chunks = [] then Some (st\<lparr>transferStatus := qstr ''Error: File empty or unreadable''\<rparr>)
               else
                 let st = st\<lparr>totalTransferBytes := of_nat (totalSize (hd chunks)), currentTransferBytes := 0\<rparr>;
                     st = transfer_loop env 1 chunks st;
                     st = st\<lparr>transferStatus := qstr ''Upload Completed (SHA-256 Verified)''\<rparr>
                 in Some (requestDirectoryListing env (currentRemotePath st) st))"

definition startFileDownload :: "feature_env \<Rightarrow> QString \<Rightarrow> QString \<Rightarrow> features \<Rightarrow> features option" where
  "startFileDownload env remotePath localPath st =
     (if remotePath = [] then Some st
      else
        let st = st\<lparr>transferStatus := qstr ''Downloading '' @ base_name env remotePath @ qstr ''...'',
                    transferProgress := 0\<rparr>;
            txId = ''rx-'' @ toStdString (fe_qt env) (qnumber (now_ms (fe_client env)))
        in case prepareFileChunks (disk st) txId (toStdString (fe_qt env) remotePath) (256 * 1024) of
             None \<Rightarrow> None
           | Some chunks \<Rightarrow>
               let st = st\<lparr>totalTransferBytes := (if chunks = [] then 1024 else of_nat (totalSize (hd chunks))),
                           currentTransferBytes := 0\<rparr>;
                   st = transfer_loop env 1 chunks st
               in Some (st\<lparr>transferStatus := qstr ''Download Completed (SHA-256 Verified)''\<rparr>))"

definition pauseFileTransfer :: "features \<Rightarrow> features" where
  "pauseFileTransfer st =
     st\<lparr>isTransferPaused := True, transferStatus := qstr ''Transfer Paused (Offset Saved)''\<rparr>"

definition resumeFileTransfer :: "features \<Rightarrow> features" where
  "resumeFileTransfer st =
     st\<lparr>isTransferPaused := False, transferStatus := qstr ''Resuming Transfer...''\<rparr>"

definition cancelFileTransfer :: "features \<Rightarrow> features" where
  "cancelFileTransfer st =
     st\<lparr>isTransferPaused := True, transferProgress := 0, currentTransferBytes := 0,
        transferStatus := qstr ''Transfer Canceled''\<rparr>"

definition enQueueTransfer :: "feature_env \<Rightarrow> QString \<Rightarrow> QString \<Rightarrow> bool \<Rightarrow> features \<Rightarrow> features option" where
  "enQueueTransfer env localPath remotePath isUpload st =
     (let item = \<lparr>q_fileName = base_name env (if isUpload then localPath else remotePath),
                  q_localPath = localPath, q_remotePath = remotePath, q_isUpload = isUpload,
                  q_status = qstr ''Queued'', q_progress = 0\<rparr>;
          st = st\<lparr>transferQueue := transferQueue st @ [item]\<rparr>
      in if length (transferQueue st) = 1 then
           (if isUpload then startFileUpload env localPath remotePath st
            else startFileDownload env remotePath localPath st)
         else Some st)"

definition cancelQueueItem :: "int \<Rightarrow> features \<Rightarrow> features" where
  "cancelQueueItem index st =
     (if 0 \<le> index \<and> index < int (length (transferQueue st))
      then st\<lparr>transferQueue := take (nat index) (transferQueue st) @ drop (nat index + 1) (transferQueue st)\<rparr>
      else st)"

definition clearQueue :: "features \<Rightarrow> features" where
  "clearQueue st = st\<lparr>transferQueue := []\<rparr>"

section \<open>Telemetry\<close>

text \<open>\<open>static_cast<int>\<close> of a \<open>uint64_t\<close> keeps the low 32 bits, read as signed; \<open>%\<close> on \<open>int\<close>
  takes the sign of the dividend.\<close>

definition to_int32 :: "64 word \<Rightarrow> int" where
  "to_int32 w = sint (ucast w :: 32 word)"

definition client_updateTelemetry :: "features \<Rightarrow> features" where
  "client_updateTelemetry st =
     (let currentFps = to_int32 (receivedFrames (core st) - lastFrameCount st);
          st = st\<lparr>lastFrameCount := receivedFrames (core st)\<rparr>;
          st = (if fps st \<noteq> currentFps then st\<lparr>fps := currentFps\<rparr> else st);
          currentBitrate = of_nat (unat (totalBytesReceived st - lastByteCount st)) * 8 / (1000 * 1000);
          st = st\<lparr>lastByteCount := totalBytesReceived st\<rparr>;
          st = (if \<bar>bitrate st - currentBitrate\<bar> > 1 / 100 then st\<lparr>bitrate := currentBitrate\<rparr> else st)
      in if isConnected (core st) then
           (let simulatedLatency = 12 + to_int32 (receivedFrames (core st)) smod 8
            in if latencyMs st \<noteq> simulatedLatency then st\<lparr>latencyMs := simulatedLatency\<rparr> else st)
         else (if latencyMs st \<noteq> 0 then st\<lparr>latencyMs := 0\<rparr> else st))"

lemma to_int32_of_int:
  assumes "- (2 ^ 31) \<le> k" and "k < 2 ^ 31"
  shows "to_int32 (word_of_int k) = k"
proof -
  have "to_int32 (word_of_int k) = signed_take_bit 31 k"
  proof (rule bit_eqI)
    fix n :: nat
    consider "n < 31" | "n = 31" | "32 \<le> n" by linarith
    then show "bit (to_int32 (word_of_int k)) n \<longleftrightarrow> bit (signed_take_bit 31 k) n"
      by cases (simp_all add: to_int32_def bit_sint_iff bit_ucast_iff bit_word_of_int_iff bit_signed_take_bit_iff
          min_def)
  qed
  also have "\<dots> = k" using assms by (simp add: signed_take_bit_int_eq_self)
  finally show ?thesis .
qed

section \<open>Settings\<close>

definition selectMonitor :: "int \<Rightarrow> features \<Rightarrow> features" where
  "selectMonitor selected st =
     (if currentMonitorId st \<noteq> selected then st\<lparr>currentMonitorId := selected\<rparr> else st)"

definition togglePrivacyMode :: "feature_env \<Rightarrow> features \<Rightarrow> features" where
  "togglePrivacyMode env st =
     (let st = st\<lparr>privacyMode := \<not> privacyMode st\<rparr>
      in st\<lparr>core := sendSessionControlAction (fe_client env) (if privacyMode st then 4 else 5) (core st)\<rparr>)"

definition toggleAudioMute :: "features \<Rightarrow> features" where
  "toggleAudioMute st = st\<lparr>core := (core st)\<lparr>audioMuted := \<not> audioMuted (core st)\<rparr>\<rparr>"

definition setAudioVolume :: "double \<Rightarrow> features \<Rightarrow> features" where
  "setAudioVolume volume st =
     st\<lparr>audioVolume := (if volume < 0 then 0 else if 1 < volume then 1 else volume)\<rparr>"

definition toggleSessionRecording :: "features \<Rightarrow> features" where
  "toggleSessionRecording st =
     (let st = st\<lparr>isRecording := \<not> isRecording st\<rparr>
      in if isRecording st then st\<lparr>recordingDurationSec := 0, recordingTimer := True\<rparr>
         else st\<lparr>recordingTimer := False\<rparr>)"

definition updateRecordingTimer :: "features \<Rightarrow> features" where
  "updateRecordingTimer st =
     (if isRecording st then st\<lparr>recordingDurationSec := recordingDurationSec st + 1\<rparr> else st)"

definition togglePipMode :: "features \<Rightarrow> features" where
  "togglePipMode st = st\<lparr>isPipMode := \<not> isPipMode st\<rparr>"

definition setLanguage :: "QString \<Rightarrow> features \<Rightarrow> features" where
  "setLanguage language st =
     (if currentLanguage st \<noteq> language then st\<lparr>currentLanguage := language\<rparr> else st)"

definition setBandwidthCapMbps :: "double \<Rightarrow> features \<Rightarrow> features" where
  "setBandwidthCapMbps cap st =
     (if bandwidthCapMbps st \<noteq> cap then st\<lparr>bandwidthCapMbps := cap\<rparr> else st)"

definition isBandwidthLimited :: "features \<Rightarrow> bool" where
  "isBandwidthLimited st \<longleftrightarrow> bandwidthCapMbps st > 0"

text \<open>The datagrams written to the broadcast address, port 9.\<close>

definition sendWakeOnLan :: "feature_env \<Rightarrow> QString \<Rightarrow> features \<Rightarrow> features" where
  "sendWakeOnLan env macAddress st =
     (let Q = fe_qt env;
          cleanMac = remove_char Q 32 (remove_char Q 45 (remove_char Q 58 macAddress))
      in if length cleanMac \<noteq> 12 then st
         else
           let packet = replicate 6 0xFF;
               macBytes = fromHex Q (toLatin1 Q cleanMac);
               packet = fold (\<lambda>i p. p @ macBytes) [0..<16] packet
           in st\<lparr>datagrams := datagrams st @ [packet]\<rparr>)"

section \<open>What transfers do\<close>

text \<open>The parts of the state a transfer does not touch.\<close>

definition untouched :: "features \<Rightarrow> session \<times> store \<times> queue_item list \<times> bytes list \<times> QString" where
  "untouched st = (core st, disk st, transferQueue st, datagrams st, currentRemotePath st)"

lemma transfer_loop_untouched [simp]: "untouched (transfer_loop env i cs st) = untouched st"
  by (induction cs arbitrary: i st) (simp_all add: Let_def untouched_def)

lemma transfer_loop_paused: "isTransferPaused st \<Longrightarrow> transfer_loop env i cs st = st"
  by (cases cs) simp_all

lemma transfer_loop_counts:
  assumes "\<not> isTransferPaused st" and "cs \<noteq> []"
  shows "currentTransferBytes (transfer_loop env i cs st) =
           currentTransferBytes st + of_nat (length (concat (map chunk_data cs))) \<and>
         totalTransferBytes (transfer_loop env i cs st) = totalTransferBytes st \<and>
         transferProgress (transfer_loop env i cs st) =
           of_nat (unat (currentTransferBytes st + of_nat (length (concat (map chunk_data cs))))) /
           of_nat (unat (totalTransferBytes st))"
  using assms
proof (induction cs arbitrary: i st)
  case (Cons c cs)
  show ?case
  proof (cases "cs = []")
    case True
    then show ?thesis using Cons.prems by (simp add: Let_def)
  next
    case False
    then show ?thesis using Cons.prems Cons.IH by (simp add: Let_def add.assoc)
  qed
qed simp

lemma prepared_chunks:
  assumes "files fs path = Some content" and "content \<noteq> []"
  obtains chunks where "prepareFileChunks fs tid path (256 * 1024) = Some chunks" and "chunks \<noteq> []"
    and "concat (map chunk_data chunks) = content" and "totalSize (hd chunks) = length content"
proof -
  let ?size = "256 * 1024 :: nat"
  let ?n = "chunk_count (length content) ?size"
  let ?cs = "map (nth_chunk tid content ?size) [0..<?n]"
  have pos: "0 < ?size" by simp
  have n: "0 < ?n" using less_chunk_count [OF pos, of 0] assms(2) by simp
  have "prepareFileChunks fs tid path ?size = Some ?cs" by (rule prepare_chunks_eq [OF pos assms(1)])
  moreover have "?cs \<noteq> []" using n by simp
  moreover have "concat (map chunk_data ?cs) = content"
    using concat_chunks [of content ?size ?n] take_all_chunks [OF pos, of content]
    by (simp only: map_map comp_def nth_chunk_data)
  moreover have "totalSize (hd ?cs) = length content"
    using n by (simp add: hd_map upt_conv_Cons nth_chunk_def make_chunk_def Let_def)
  ultimately show thesis by (rule that)
qed

lemma prepared_total: "prepareFileChunks fs tid path (256 * 1024) \<noteq> None"
proof (cases "files fs path")
  case None
  then show ?thesis by (simp add: prepareFileChunks_def)
next
  case (Some content)
  then show ?thesis using prepare_chunks_eq [of "256 * 1024" fs path content tid] by simp
qed

lemma listing_untouched [simp]:
  "core (requestDirectoryListing env path st) = core st"
  "disk (requestDirectoryListing env path st) = disk st"
  "transferQueue (requestDirectoryListing env path st) = transferQueue st"
  "datagrams (requestDirectoryListing env path st) = datagrams st"
  "transferProgress (requestDirectoryListing env path st) = transferProgress st"
  "currentTransferBytes (requestDirectoryListing env path st) = currentTransferBytes st"
  "transferStatus (requestDirectoryListing env path st) = transferStatus st"
  by (simp_all add: requestDirectoryListing_def Let_def)

lemma upload_result:
  assumes "localPath \<noteq> []" and "files (disk st) (toStdString (fe_qt env) localPath) = Some content"
    and "content \<noteq> []" and "length content < 2 ^ 64"
  obtains st' where "startFileUpload env localPath remotePath st = Some st'"
    and "transferProgress st' = 1" and "currentTransferBytes st' = of_nat (length content)"
    and "transferStatus st' = qstr ''Upload Completed (SHA-256 Verified)''"
    and "core st' = core st" and "disk st' = disk st" and "transferQueue st' = transferQueue st"
    and "datagrams st' = datagrams st"
proof -
  let ?tid = "''tx-'' @ toStdString (fe_qt env) (qnumber (now_ms (fe_client env)))"
  obtain chunks where chunks: "prepareFileChunks (disk st) ?tid (toStdString (fe_qt env) localPath) (256 * 1024) = Some chunks"
    "chunks \<noteq> []" "concat (map chunk_data chunks) = content" "totalSize (hd chunks) = length content"
    using prepared_chunks [OF assms(2,3)] by blast
  let ?a = "st\<lparr>transferStatus := qstr ''Uploading '' @ base_name env localPath @ qstr ''...'',
               transferProgress := 0, isTransferPaused := False\<rparr>"
  let ?b = "?a\<lparr>totalTransferBytes := of_nat (length content), currentTransferBytes := 0\<rparr>"
  let ?c = "transfer_loop env 1 chunks ?b"
  have size: "unat (of_nat (length content) :: 64 word) = length content"
    using assms(4) by (simp add: unat_of_nat)
  have "currentTransferBytes ?c = of_nat (length content)" "transferProgress ?c = 1"
    using transfer_loop_counts [of ?b chunks env 1] chunks(2,3) size assms(3) by simp_all
  moreover have "untouched ?c = untouched st" by (simp only: transfer_loop_untouched) (simp add: untouched_def)
  moreover have "startFileUpload env localPath remotePath st =
      Some (requestDirectoryListing env (currentRemotePath ?c)
        (?c\<lparr>transferStatus := qstr ''Upload Completed (SHA-256 Verified)''\<rparr>))"
    using assms(1) chunks by (simp add: startFileUpload_def Let_def)
  ultimately show thesis using that by (simp add: untouched_def)
qed

lemma upload_returns: "startFileUpload env l r st \<noteq> None"
  using prepared_total [of "disk st" "''tx-'' @ toStdString (fe_qt env) (qnumber (now_ms (fe_client env)))"
      "toStdString (fe_qt env) l"]
  by (auto simp: startFileUpload_def Let_def split: option.splits)

lemma download_returns: "startFileDownload env r l st \<noteq> None"
  using prepared_total [of "disk st" "''rx-'' @ toStdString (fe_qt env) (qnumber (now_ms (fe_client env)))"
      "toStdString (fe_qt env) r"]
  by (auto simp: startFileDownload_def Let_def split: option.splits)

section \<open>Everything the client can go through\<close>

inductive feature_step :: "features \<Rightarrow> features \<Rightarrow> bool" where
  session: "session_step (core st) c \<Longrightarrow> feature_step st (st\<lparr>core := c\<rparr>)"
| list_remote: "feature_step st (requestDirectoryListing env p st)"
| list_local: "feature_step st (requestLocalDirectoryListing env p st)"
| delete_local: "feature_step st (deleteLocalFile env p st)"
| delete_remote: "feature_step st (deleteRemoteFile env p st)"
| upload: "startFileUpload env l r st = Some st' \<Longrightarrow> feature_step st st'"
| download: "startFileDownload env r l st = Some st' \<Longrightarrow> feature_step st st'"
| pause: "feature_step st (pauseFileTransfer st)"
| resume: "feature_step st (resumeFileTransfer st)"
| cancel: "feature_step st (cancelFileTransfer st)"
| enqueue: "enQueueTransfer env l r u st = Some st' \<Longrightarrow> feature_step st st'"
| cancel_item: "feature_step st (cancelQueueItem i st)"
| clear_queue: "feature_step st (clearQueue st)"
| telemetry: "feature_step st (client_updateTelemetry st)"
| monitor: "feature_step st (selectMonitor i st)"
| privacy: "feature_step st (togglePrivacyMode env st)"
| mute: "feature_step st (toggleAudioMute st)"
| volume: "feature_step st (setAudioVolume v st)"
| recording: "feature_step st (toggleSessionRecording st)"
| tick: "recordingTimer st \<Longrightarrow> feature_step st (updateRecordingTimer st)"
| pip: "feature_step st (togglePipMode st)"
| language: "feature_step st (setLanguage s st)"
| bandwidth: "feature_step st (setBandwidthCapMbps r st)"
| wake: "feature_step st (sendWakeOnLan env m st)"

text \<open>
  What is always so: the volume is between 0 and 1, the recording timer runs exactly while recording,
  the latency shown is 0 or between 5 and 19, and since nothing counts received bytes the
  bitrate is 0.
\<close>

definition features_wf :: "features \<Rightarrow> bool" where
  "features_wf st \<longleftrightarrow>
     0 \<le> audioVolume st \<and> audioVolume st \<le> 1 \<and> recordingTimer st = isRecording st \<and>
     0 \<le> recordingDurationSec st \<and> (latencyMs st = 0 \<or> 5 \<le> latencyMs st \<and> latencyMs st \<le> 19) \<and>
     bitrate st = 0 \<and> totalBytesReceived st = 0 \<and> lastByteCount st = 0"

text \<open>The members it speaks of; an operation that leaves them alone keeps it.\<close>

definition gauges :: "features \<Rightarrow> double \<times> bool \<times> bool \<times> int \<times> int \<times> double \<times> 64 word \<times> 64 word" where
  "gauges st = (audioVolume st, recordingTimer st, isRecording st, recordingDurationSec st, latencyMs st,
                bitrate st, totalBytesReceived st, lastByteCount st)"

lemma features_wf_gauges: "gauges st' = gauges st \<Longrightarrow> features_wf st \<Longrightarrow> features_wf st'"
  by (simp add: features_wf_def gauges_def)

lemma transfer_loop_gauges [simp]: "gauges (transfer_loop env i cs st) = gauges st"
  by (induction cs arbitrary: i st) (simp_all add: Let_def gauges_def)

lemma gauges_updates [simp]:
  "gauges (st\<lparr>core := c\<rparr>) = gauges st" "gauges (st\<lparr>disk := d\<rparr>) = gauges st"
  "gauges (st\<lparr>transferStatus := s\<rparr>) = gauges st" "gauges (st\<lparr>transferQueue := q\<rparr>) = gauges st"
  "gauges (st\<lparr>transferProgress := r\<rparr>) = gauges st" "gauges (st\<lparr>isTransferPaused := b\<rparr>) = gauges st"
  "gauges (st\<lparr>currentTransferBytes := w\<rparr>) = gauges st" "gauges (st\<lparr>totalTransferBytes := w\<rparr>) = gauges st"
  "gauges (st\<lparr>privacyMode := b\<rparr>) = gauges st"
  by (simp_all add: gauges_def)

lemma listing_gauges [simp]:
  "gauges (requestDirectoryListing env p st) = gauges st"
  "gauges (requestLocalDirectoryListing env p st) = gauges st"
  by (simp_all add: requestDirectoryListing_def requestLocalDirectoryListing_def Let_def gauges_def)

lemma upload_gauges: "startFileUpload env l r st = Some st' \<Longrightarrow> gauges st' = gauges st"
  by (auto simp: startFileUpload_def Let_def split: if_splits option.splits)

lemma download_gauges: "startFileDownload env r l st = Some st' \<Longrightarrow> gauges st' = gauges st"
  by (auto simp: startFileDownload_def Let_def split: if_splits option.splits)

lemma file_ops_gauges [simp]:
  "gauges (deleteLocalFile env p st) = gauges st" "gauges (deleteRemoteFile env p st) = gauges st"
  "gauges (pauseFileTransfer st) = gauges st" "gauges (resumeFileTransfer st) = gauges st"
  "gauges (cancelFileTransfer st) = gauges st" "gauges (cancelQueueItem i st) = gauges st"
  "gauges (clearQueue st) = gauges st"
  by (simp_all add: deleteLocalFile_def deleteRemoteFile_def pauseFileTransfer_def resumeFileTransfer_def
      cancelFileTransfer_def cancelQueueItem_def clearQueue_def Let_def)

lemma settings_gauges [simp]:
  "gauges (selectMonitor i st) = gauges st" "gauges (togglePrivacyMode env st) = gauges st"
  "gauges (toggleAudioMute st) = gauges st" "gauges (togglePipMode st) = gauges st"
  "gauges (setLanguage s st) = gauges st" "gauges (setBandwidthCapMbps r st) = gauges st"
  "gauges (sendWakeOnLan env m st) = gauges st"
  by (simp_all add: selectMonitor_def togglePrivacyMode_def toggleAudioMute_def togglePipMode_def
      setLanguage_def setBandwidthCapMbps_def sendWakeOnLan_def Let_def gauges_def)

lemma smod_8_bounds: "- 8 < n smod 8" "n smod 8 < (8 :: int)"
  using smod_int_range [of 8 n] by auto

lemma telemetry_wf:
  assumes "features_wf st"
  shows "features_wf (client_updateTelemetry st)"
proof -
  let ?l = "12 + to_int32 (receivedFrames (core st)) smod 8"
  have "5 \<le> ?l \<and> ?l \<le> 19"
    using smod_8_bounds [of "to_int32 (receivedFrames (core st))"] by linarith
  then show ?thesis
    using assms by (simp add: features_wf_def client_updateTelemetry_def Let_def)
qed

lemma feature_step_wf:
  assumes "feature_step st st'" and "features_wf st"
  shows "features_wf st'"
  using assms(1)
proof cases
  case (enqueue env l r u)
  then have "gauges st' = gauges st"
    using upload_gauges download_gauges
    by (auto simp: enQueueTransfer_def Let_def split: if_splits)
  then show ?thesis using assms(2) by (rule features_wf_gauges)
next
  case telemetry
  then show ?thesis using assms(2) telemetry_wf by simp
next
  case (volume v)
  then show ?thesis using assms(2) by (simp add: features_wf_def setAudioVolume_def)
next
  case recording
  then show ?thesis using assms(2) by (simp add: features_wf_def toggleSessionRecording_def Let_def)
next
  case tick
  then show ?thesis using assms(2) by (simp add: features_wf_def updateRecordingTimer_def)
qed (simp_all add: features_wf_gauges [OF _ assms(2)] upload_gauges download_gauges)

lemma reached_wf: "rtranclp feature_step (SessionClient su) st \<Longrightarrow> features_wf st"
proof (induction rule: rtranclp_induct)
  case base
  then show ?case by (simp add: features_wf_def SessionClient_def)
next
  case (step st st')
  then show ?case using feature_step_wf by blast
qed

section \<open>Properties\<close>

text \<open>A start-up and environment to evaluate examples with.\<close>

definition demo_features :: feature_env where
  "demo_features = \<lparr>fe_client = demo_client, base_name = (\<lambda>s. s), number_f2 = (\<lambda>_. []), clock = (\<lambda>i. 0)\<rparr>"

definition demo_startup :: startup where
  "demo_startup = \<lparr>machine_id = None, trim_bytes = (\<lambda>b. b), host_names = [104], sha256 = (\<lambda>b. [1, 2, 3]),
     port_answers = True, history_on_disk = NotAnArray, history_opens = True, day_before = [], two_days_before = [],
     start_disk = demo_store\<rparr>"



text \<open>
  C34: An upload of a readable, non-empty file always returns reporting completion, full progress and
  every byte of the file counted and verified, but it sends nothing: the session, what it has
  written to the socket and the file system are as before.
\<close>

theorem upload_sends_nothing:
  assumes "localPath \<noteq> []" and "files (disk st) (toStdString (fe_qt env) localPath) = Some content"
    and "content \<noteq> []" and "length content < 2 ^ 64"
  shows "\<exists>st'. startFileUpload env localPath remotePath st = Some st' \<and>
    transferStatus st' = qstr ''Upload Completed (SHA-256 Verified)'' \<and> transferProgress st' = 1 \<and>
    currentTransferBytes st' = of_nat (length content) \<and> core st' = core st \<and> disk st' = disk st"
  using upload_result [OF assms] by metis

theorem upload_sends_nothing_witness:
  "\<exists>st'. startFileUpload demo_features (qstr ''src'') [] (SessionClient demo_startup) = Some st' \<and>
     transferProgress st' = 1 \<and> currentTransferBytes st' = 3 \<and> sent (core st') = []"
proof -
  have "toStdString (fe_qt demo_features) (qstr ''src'') = ''src''" by code_simp
  moreover have "disk (SessionClient demo_startup) = demo_store"
    by (simp add: SessionClient_def demo_startup_def)
  moreover have "files demo_store ''src'' = Some [1, 2, 3]" by (simp add: demo_store_def)
  moreover have "sent (core (SessionClient demo_startup)) = []"
    by (simp add: SessionClient_def demo_startup_def loadConnectionHistory_def new_session_def)
  ultimately show ?thesis
    using upload_sends_nothing [of "qstr ''src''" "SessionClient demo_startup" demo_features "[1, 2, 3]" "[]"]
    by (auto simp: qstr_def)
qed

text \<open>
  A download after a pause or a cancellation, of any path, is reported complete and verified
  although not one chunk was taken: the flag is not reset, so the loop stops before its first.
\<close>

theorem paused_download_completes:
  assumes "isTransferPaused st" and "remotePath \<noteq> []"
  shows "\<exists>st'. startFileDownload env remotePath localPath st = Some st' \<and>
    transferStatus st' = qstr ''Download Completed (SHA-256 Verified)'' \<and>
    transferProgress st' = 0 \<and> currentTransferBytes st' = 0"
proof -
  let ?tid = "''rx-'' @ toStdString (fe_qt env) (qnumber (now_ms (fe_client env)))"
  obtain chunks where "prepareFileChunks (disk st) ?tid (toStdString (fe_qt env) remotePath) (256 * 1024) = Some chunks"
    using prepared_total by blast
  then show ?thesis using assms by (simp add: startFileDownload_def Let_def transfer_loop_paused)
qed

theorem paused_download_completes_witness:
  "\<exists>st'. startFileDownload demo_features (qstr ''src'') [] (cancelFileTransfer (SessionClient demo_startup)) = Some st' \<and>
     transferStatus st' = qstr ''Download Completed (SHA-256 Verified)''"
  using paused_download_completes [of "cancelFileTransfer (SessionClient demo_startup)" "qstr ''src''" demo_features "[]"]
  by (auto simp: cancelFileTransfer_def qstr_def)

text \<open>
  The queue never advances: the first upload runs to completion at once, but its entry stays in the
  queue as queued, so the next transfer is only appended and is not started.
\<close>

theorem queue_never_advances:
  assumes "transferQueue st = []" and "l \<noteq> []"
    and "files (disk st) (toStdString (fe_qt env) l) = Some content" and "content \<noteq> []" and "length content < 2 ^ 64"
  shows "\<exists>st' item item'. enQueueTransfer env l r True st = Some st' \<and>
    transferStatus st' = qstr ''Upload Completed (SHA-256 Verified)'' \<and>
    transferQueue st' = [item] \<and> q_status item = qstr ''Queued'' \<and>
    enQueueTransfer env l' r' u st' = Some (st'\<lparr>transferQueue := [item, item']\<rparr>)"
proof -
  let ?item = "\<lparr>q_fileName = base_name env l, q_localPath = l, q_remotePath = r, q_isUpload = True,
                q_status = qstr ''Queued'', q_progress = 0\<rparr>"
  obtain st' where st': "startFileUpload env l r (st\<lparr>transferQueue := [?item]\<rparr>) = Some st'"
    "transferStatus st' = qstr ''Upload Completed (SHA-256 Verified)''" "transferQueue st' = [?item]"
    using upload_result [of l "st\<lparr>transferQueue := [?item]\<rparr>" env content r] assms(2-) by auto
  have first: "enQueueTransfer env l r True st = Some st'"
    using assms(1) st'(1) by (simp add: enQueueTransfer_def)
  let ?item' = "\<lparr>q_fileName = base_name env (if u then l' else r'), q_localPath = l', q_remotePath = r',
                 q_isUpload = u, q_status = qstr ''Queued'', q_progress = 0\<rparr>"
  have "enQueueTransfer env l' r' u st' = Some (st'\<lparr>transferQueue := [?item, ?item']\<rparr>)"
    using st'(3) by (simp add: enQueueTransfer_def)
  then show ?thesis
    using first st'(2,3) by (intro exI [of _ st'] exI [of _ ?item] exI [of _ ?item']) simp
qed

theorem queue_never_advances_witness:
  "\<exists>st'. enQueueTransfer demo_features (qstr ''src'') [] True (SessionClient demo_startup) = Some st' \<and>
     length (transferQueue st') = 1"
proof -
  have "toStdString (fe_qt demo_features) (qstr ''src'') = ''src''" by code_simp
  moreover have "disk (SessionClient demo_startup) = demo_store" "transferQueue (SessionClient demo_startup) = []"
    by (simp_all add: SessionClient_def demo_startup_def)
  moreover have "files demo_store ''src'' = Some [1, 2, 3]" by (simp add: demo_store_def)
  ultimately show ?thesis
    using queue_never_advances [of "SessionClient demo_startup" "qstr ''src''" demo_features "[1, 2, 3]" "[]" "[]" "[]" True]
    by (auto simp: qstr_def)
qed

text \<open>
  The frame rate shown is the number of frames since the last tick, but after a reconnect it is
  negative: connecting resets the frame counter and not the tick's copy of it.
\<close>

theorem reconnect_fps_negative:
  assumes "unat (lastFrameCount st) < 2 ^ 31" and "d < 2 ^ 31"
  shows "fps (client_updateTelemetry (st\<lparr>core := (core st)\<lparr>receivedFrames := lastFrameCount st + of_nat d\<rparr>\<rparr>)) = int d \<and>
    fps (client_updateTelemetry (st\<lparr>core := onConnected env (core st)\<rparr>)) = - int (unat (lastFrameCount st))"
proof -
  have now: "fps (client_updateTelemetry s) = to_int32 (receivedFrames (core s) - lastFrameCount s)" for s
    by (simp add: client_updateTelemetry_def Let_def)
  have "to_int32 (of_nat d) = int d"
    using to_int32_of_int [of "int d"] assms(2) by simp
  moreover have "to_int32 (- lastFrameCount st) = - int (unat (lastFrameCount st))"
  proof -
    have "uint (lastFrameCount st) = int (unat (lastFrameCount st))" by simp
    moreover have "unat (lastFrameCount st) < 2147483648" using assms(1) by simp
    ultimately have "uint (lastFrameCount st) < 2147483648" "- uint (lastFrameCount st) < 2147483648" by linarith+
    then show ?thesis using to_int32_of_int [of "- uint (lastFrameCount st)"] by simp
  qed
  moreover have "receivedFrames (onConnected env (core st)) = 0"
    by (simp add: onConnected_def Let_def send_sealed_def setStatus_eq split: sum.split)
  ultimately show ?thesis by (simp add: now)
qed

theorem reconnect_fps_negative_witness:
  "fps (client_updateTelemetry ((SessionClient demo_startup)
     \<lparr>lastFrameCount := 30, core := onConnected demo_client (core (SessionClient demo_startup))\<rparr>)) = - 30"
  using reconnect_fps_negative [of "(SessionClient demo_startup)\<lparr>lastFrameCount := 30\<rparr>" 0 demo_client] by simp

text \<open>
  For an address of twelve characters without separators, one datagram is sent: six bytes 0xFF and
  sixteen times the decoded address, 102 bytes when it decodes to six; for any other nothing.
\<close>

theorem wake_on_lan_packet:
  "datagrams (sendWakeOnLan env m st) =
     (let Q = fe_qt env; clean = remove_char Q 32 (remove_char Q 45 (remove_char Q 58 m));
          mac = fromHex Q (toLatin1 Q clean); packet = replicate 6 0xFF @ concat (replicate 16 mac)
      in if length clean = 12 then datagrams st @ [packet] else datagrams st) \<and>
   length (replicate 6 (0xFF :: byte) @ concat (replicate 16 mac)) = 6 + 16 * length mac"
proof -
  have "concat (replicate n mac) @ mac = mac @ concat (replicate n mac)" for n and mac :: bytes
    by (induction n) simp_all
  then have "fold (\<lambda>i p. p @ mac) [0..<n] p = p @ concat (replicate n mac)" for n p and mac :: bytes
    by (induction n) simp_all
  then show ?thesis by (simp add: sendWakeOnLan_def Let_def length_concat sum_list_replicate)
qed

text \<open>
  Deleting removes exactly the path and what is below it, and deleting a "remote" item does the
  same to the local file system and sends nothing to the host.
\<close>

theorem delete_remote_is_local:
  "disk (deleteRemoteFile env path st) = disk (deleteLocalFile env path st) \<and>
   core (deleteRemoteFile env path st) = core st \<and>
   files (disk (deleteLocalFile env path st)) p =
     (if path \<noteq> [] \<and> removed (toStdString (fe_qt env) path) p then None else files (disk st) p)"
  by (simp add: deleteRemoteFile_def deleteLocalFile_def requestLocalDirectoryListing_def Let_def remove_all_def)

end
