(* ===== verification/Client_Shell.thy ===== *)
theory Client_Shell
  imports Session_Client
begin

text \<open>
  What surrounds the session in the desktop client (\<open>apps/client/src\<close>): the frame provider of the
  user interface (\<open>VideoFrameProvider.cpp\<close>), screenshots, the colour themes
  (\<open>theme/ThemeManager.cpp\<close>), the update check (\<open>UpdateChecker.h\<close>) and the reload of
  changed interface files (\<open>dev/HotReloadManager.cpp\<close>).
\<close>

section \<open>Frames\<close>

text \<open>The image held: the dark 1280 by 720 placeholder, or the last one handed over.\<close>

datatype provided_frame = PlaceholderFrame | ReceivedFrame shown_image

definition frame_size :: "provided_frame \<Rightarrow> 32 word \<times> 32 word" where
  "frame_size f =
     (case f of PlaceholderFrame \<Rightarrow> (1280, 720) | ReceivedFrame img \<Rightarrow> (img_width img, img_height img))"

record VideoFrameProvider =
  currentFrame :: provided_frame
  frameReady :: nat

definition video_frame_provider :: VideoFrameProvider where
  "video_frame_provider = \<lparr>currentFrame = PlaceholderFrame, frameReady = 0\<rparr>"

definition updateFrame :: "shown_image \<Rightarrow> VideoFrameProvider \<Rightarrow> VideoFrameProvider" where
  "updateFrame img fp =
     (let fp = fp\<lparr>currentFrame := ReceivedFrame img\<rparr> in fp\<lparr>frameReady := frameReady fp + 1\<rparr>)"

text \<open>The size reported and the image, scaled by Qt when a size is asked for.\<close>

definition requestImage ::
    "(int \<times> int \<Rightarrow> provided_frame \<Rightarrow> provided_frame) \<Rightarrow> int \<times> int \<Rightarrow> VideoFrameProvider \<Rightarrow>
     (32 word \<times> 32 word) \<times> provided_frame" where
  "requestImage scaled requestedSize fp =
     (frame_size (currentFrame fp),
      if 0 < fst requestedSize \<and> 0 < snd requestedSize then scaled requestedSize (currentFrame fp)
      else currentFrame fp)"

text \<open>A screenshot: where what is saved, if there is a provider and its frame is not null.\<close>

definition captureScreenshot ::
    "QString \<Rightarrow> QString \<Rightarrow> VideoFrameProvider option \<Rightarrow> (QString \<times> provided_frame) option" where
  "captureScreenshot homePath timestamp provider =
     (case provider of
        None \<Rightarrow> None
      | Some fp \<Rightarrow>
          let f = currentFrame fp
          in if fst (frame_size f) = 0 \<or> snd (frame_size f) = 0 then None
             else Some (homePath @ qstr ''/Desktop/'' @ qstr ''RAP_Screenshot_'' @ timestamp @ qstr ''.png'', f))"

section \<open>Themes\<close>

text \<open>A colour is its opaque RGB value.\<close>

type_synonym QColor = "32 word"

record ThemeManager =
  currentTheme :: int
  currentThemeName :: QString
  background :: QColor
  surface :: QColor
  surfaceVariant :: QColor
  border :: QColor
  primary :: QColor
  accent :: QColor
  textPrimary :: QColor
  textSecondary :: QColor
  error_colour :: QColor
  success :: QColor
  warning :: QColor

definition setTheme :: "int \<Rightarrow> ThemeManager \<Rightarrow> ThemeManager" where
  "setTheme mode tm =
     (let tm = tm\<lparr>currentTheme := mode\<rparr>
      in if mode = 1 then
           tm\<lparr>currentThemeName := qstr ''Tokyo Night'', background := 0x1a1b26, surface := 0x24283b,
              surfaceVariant := 0x414868, border := 0x565f89, primary := 0x7aa2f7, accent := 0xbb9af7,
              textPrimary := 0xc0caf5, textSecondary := 0x9aa5ce, error_colour := 0xf7768e,
              success := 0x9ece6a, warning := 0xe0af68\<rparr>
         else if mode = 2 then
           tm\<lparr>currentThemeName := qstr ''Nordic Frost'', background := 0x2e3440, surface := 0x3b4252,
              surfaceVariant := 0x434c5e, border := 0x4c566a, primary := 0x88c0d0, accent := 0x81a1c1,
              textPrimary := 0xeceff4, textSecondary := 0xd8dee9, error_colour := 0xbf616a,
              success := 0xa3be8c, warning := 0xebcb8b\<rparr>
         else if mode = 3 then
           tm\<lparr>currentThemeName := qstr ''GitHub Dark'', background := 0x0d1117, surface := 0x161b22,
              surfaceVariant := 0x21262d, border := 0x30363d, primary := 0x58a6ff, accent := 0xbc8cff,
              textPrimary := 0xc9d1d9, textSecondary := 0x8b949e, error_colour := 0xf85149,
              success := 0x3fb950, warning := 0xd29922\<rparr>
         else if mode = 4 then
           tm\<lparr>currentThemeName := qstr ''Enterprise Light'', background := 0xf8f9fa, surface := 0xffffff,
              surfaceVariant := 0xe9ecef, border := 0xced4da, primary := 0x0d6efd, accent := 0x6f42c1,
              textPrimary := 0x212529, textSecondary := 0x6c757d, error_colour := 0xdc3545,
              success := 0x198754, warning := 0xffc107\<rparr>
         else
           tm\<lparr>currentThemeName := qstr ''Catppuccin Dark'', background := 0x181825, surface := 0x1e1e2e,
              surfaceVariant := 0x313244, border := 0x45475a, primary := 0x89b4fa, accent := 0xcba6f7,
              textPrimary := 0xcdd6f4, textSecondary := 0xa6adc8, error_colour := 0xf38ba8,
              success := 0xa6e3a1, warning := 0xf9e2af\<rparr>)"

text \<open>\<open>lighter\<close> is Qt's \<open>QColor::lighter\<close>.\<close>

definition setCustomAccentColor :: "(nat \<Rightarrow> QColor \<Rightarrow> QColor) \<Rightarrow> QColor \<Rightarrow> ThemeManager \<Rightarrow> ThemeManager" where
  "setCustomAccentColor lighter color tm = tm\<lparr>primary := color, accent := lighter 120 color\<rparr>"

definition palette_members :: ThemeManager where
  "palette_members =
     \<lparr>currentTheme = 0, currentThemeName = qstr ''Catppuccin Dark'', background = 0x181825, surface = 0x1e1e2e,
      surfaceVariant = 0x313244, border = 0x45475a, primary = 0x89b4fa, accent = 0xcba6f7,
      textPrimary = 0xcdd6f4, textSecondary = 0xa6adc8, error_colour = 0xf38ba8, success = 0xa6e3a1,
      warning = 0xf9e2af\<rparr>"

definition theme_manager :: ThemeManager where
  "theme_manager = setTheme 0 palette_members"

section \<open>Updates and reloading\<close>

record UpdateChecker =
  updateAvailable :: bool
  latestVersion :: QString
  releaseNotes :: QString

definition update_checker :: UpdateChecker where
  "update_checker = \<lparr>updateAvailable = False, latestVersion = qstr ''0.3.0'', releaseNotes = []\<rparr>"

definition checkForUpdates :: "UpdateChecker \<Rightarrow> UpdateChecker" where
  "checkForUpdates uc =
     uc\<lparr>updateAvailable := False, latestVersion := qstr ''0.3.0'',
        releaseNotes := qstr ''Current version 0.3.0 is up to date.''\<rparr>"

text \<open>The watcher's directories and files, and how often the engine's cache was dropped.\<close>

record HotReloadManager =
  watched_directories :: "QString list"
  watched_files :: "QString list"
  has_engine :: bool
  reloads :: nat

definition hot_reload_manager :: "bool \<Rightarrow> HotReloadManager" where
  "hot_reload_manager engine = \<lparr>watched_directories = [], watched_files = [], has_engine = engine, reloads = 0\<rparr>"

text \<open>\<open>qml_files\<close> is what \<open>QDirIterator\<close> finds below a directory, if it exists. The watcher adds no path
  it watches already.\<close>

definition add_path :: "QString \<Rightarrow> QString list \<Rightarrow> QString list" where
  "add_path p ps = (if p \<in> set ps then ps else ps @ [p])"

definition watchDirectory :: "(QString \<Rightarrow> QString list option) \<Rightarrow> QString \<Rightarrow> HotReloadManager \<Rightarrow> HotReloadManager" where
  "watchDirectory qml_files dirPath hr =
     (case qml_files dirPath of
        None \<Rightarrow> hr
      | Some paths \<Rightarrow> hr\<lparr>watched_directories := add_path dirPath (watched_directories hr),
                          watched_files := fold add_path paths (watched_files hr)\<rparr>)"

definition reload_isActive :: "HotReloadManager \<Rightarrow> bool" where
  "reload_isActive hr \<longleftrightarrow> length (watched_directories hr) > 0"

definition onFileOrDirectoryChanged :: "HotReloadManager \<Rightarrow> HotReloadManager" where
  "onFileOrDirectoryChanged hr = (if has_engine hr then hr\<lparr>reloads := reloads hr + 1\<rparr> else hr)"

section \<open>Properties\<close>

lemma theme_manager_members: "theme_manager = palette_members"
  by (simp add: theme_manager_def palette_members_def setTheme_def)

lemma setTheme_forgets: "setTheme m tm = setTheme m tm'"
  by (cases tm; cases tm') (simp add: setTheme_def Let_def)

text \<open>
  A theme is chosen by its mode alone: choosing one gives the same palette whatever was chosen or
  customised before, so a custom accent colour lasts until the next choice, a fresh manager has the
  palette of its member initialisers, and every mode but 1 to 4 gives that palette too.
\<close>

theorem theme_by_mode:
  "setTheme m (setCustomAccentColor lighter c tm) = setTheme m tm' \<and> theme_manager = setTheme 0 tm' \<and>
   (m \<in> {1, 2, 3, 4} \<or> setTheme m tm = theme_manager\<lparr>currentTheme := m\<rparr>)"
proof -
  have "theme_manager = setTheme 0 tm'"
    unfolding theme_manager_def by (rule setTheme_forgets)
  moreover have "setTheme m tm = theme_manager\<lparr>currentTheme := m\<rparr>" if "m \<notin> {1, 2, 3, 4}"
    using that by (cases tm) (simp add: setTheme_def theme_manager_members palette_members_def)
  ultimately show ?thesis using setTheme_forgets by blast
qed

end
