(* ===== verification/Json_Log.thy ===== *)
theory Json_Log
  imports Qt_Text
begin

text \<open>
  The logger (\<open>libs/common/logging\<close>): opening its file once, taking over Qt's messages, and writing
  each as one line of JSON to the standard output and, when it is open, to the file. The clock and
  the text of a JSON object are Qt's and arguments here; the mutex makes each operation one step.
\<close>

section \<open>Messages\<close>

datatype QtMsgType = QtDebugMsg | QtInfoMsg | QtWarningMsg | QtCriticalMsg | QtFatalMsg

record message_context =
  ctx_category :: "QString option"
  ctx_file :: "QString option"
  ctx_line :: int
  ctx_function :: "QString option"

datatype json_value = JString QString | JNumber int

definition level_name :: "QtMsgType \<Rightarrow> QString" where
  "level_name type =
     (case type of
        QtDebugMsg \<Rightarrow> qstr ''DEBUG'' | QtInfoMsg \<Rightarrow> qstr ''INFO'' | QtWarningMsg \<Rightarrow> qstr ''WARNING''
      | QtCriticalMsg \<Rightarrow> qstr ''CRITICAL'' | QtFatalMsg \<Rightarrow> qstr ''FATAL'')"

text \<open>A JSON object: its members by key.\<close>

definition formatJsonObject ::
    "QString \<Rightarrow> QtMsgType \<Rightarrow> message_context \<Rightarrow> QString \<Rightarrow> (string \<rightharpoonup> json_value)" where
  "formatJsonObject now type ctx msg =
     (let obj = [''timestamp'' \<mapsto> JString now];
          obj = obj(''level'' \<mapsto> JString (level_name type));
          obj = obj(''category'' \<mapsto> JString (case ctx_category ctx of Some c \<Rightarrow> c | None \<Rightarrow> qstr ''default''));
          obj = obj(''file'' \<mapsto> JString (case ctx_file ctx of Some f \<Rightarrow> f | None \<Rightarrow> []));
          obj = obj(''line'' \<mapsto> JNumber (ctx_line ctx));
          obj = obj(''function'' \<mapsto> JString (case ctx_function ctx of Some f \<Rightarrow> f | None \<Rightarrow> []))
      in obj(''message'' \<mapsto> JString msg))"

section \<open>The logger\<close>

record JsonLogger =
  initialized :: bool
  installed :: bool
  logFile :: "QString option"
  console :: "QString list"
  file_lines :: "QString \<Rightarrow> QString list"

definition json_logger :: JsonLogger where
  "json_logger = \<lparr>initialized = False, installed = False, logFile = None, console = [], file_lines = (\<lambda>_. [])\<rparr>"

text \<open>\<open>opens\<close> says which files can be opened for appending.\<close>

definition initialize :: "(QString \<Rightarrow> bool) \<Rightarrow> QString \<Rightarrow> JsonLogger \<Rightarrow> JsonLogger" where
  "initialize opens logFilePath lg =
     (if initialized lg then lg
      else
        let lg = (if logFilePath \<noteq> [] then (if opens logFilePath then lg\<lparr>logFile := Some logFilePath\<rparr> else lg) else lg)
        in lg\<lparr>initialized := True\<rparr>)"

definition install :: "JsonLogger \<Rightarrow> JsonLogger" where
  "install lg = (if \<not> installed lg then lg\<lparr>installed := True\<rparr> else lg)"

definition uninstall :: "JsonLogger \<Rightarrow> JsonLogger" where
  "uninstall lg = (if installed lg then lg\<lparr>installed := False\<rparr> else lg)"

definition logger_delete :: "JsonLogger \<Rightarrow> JsonLogger" where
  "logger_delete lg = (case logFile lg of None \<Rightarrow> lg | Some f \<Rightarrow> lg\<lparr>logFile := None\<rparr>)"

definition writeLog :: "QString \<Rightarrow> JsonLogger \<Rightarrow> JsonLogger" where
  "writeLog jsonLine lg =
     (let lg = lg\<lparr>console := console lg @ [jsonLine]\<rparr>
      in case logFile lg of
           None \<Rightarrow> lg
         | Some f \<Rightarrow> lg\<lparr>file_lines := (file_lines lg)(f := file_lines lg f @ [jsonLine])\<rparr>)"

definition qtMessageHandler ::
    "((string \<rightharpoonup> json_value) \<Rightarrow> QString) \<Rightarrow> QString \<times> QtMsgType \<times> message_context \<times> QString \<Rightarrow> JsonLogger \<Rightarrow> JsonLogger" where
  "qtMessageHandler toJson m lg =
     (case m of (now, type, ctx, msg) \<Rightarrow> writeLog (toJson (formatJsonObject now type ctx msg)) lg)"

text \<open>A message of the program, \<open>qInfo() << ...\<close>: Qt gives it to the handler while one is installed. Its
  own output of the others, to the error stream, is not part of the logger.\<close>

definition qt_message ::
    "((string \<rightharpoonup> json_value) \<Rightarrow> QString) \<Rightarrow> QString \<times> QtMsgType \<times> message_context \<times> QString \<Rightarrow> JsonLogger \<Rightarrow> JsonLogger" where
  "qt_message toJson m lg = (if installed lg then qtMessageHandler toJson m lg else lg)"

definition log_categories :: "string list" where
  "log_categories = [''rap.transport'', ''rap.capture'', ''rap.encode'', ''rap.security'', ''rap.input'',
                     ''rap.clipboard'', ''rap.ui'']"

text \<open>The line of a message, as a specification of what is written.\<close>

definition log_line :: "((string \<rightharpoonup> json_value) \<Rightarrow> QString) \<Rightarrow> QString \<times> QtMsgType \<times> message_context \<times> QString \<Rightarrow> QString" where
  "log_line toJson = (\<lambda>(now, type, ctx, msg). toJson (formatJsonObject now type ctx msg))"

section \<open>Properties\<close>

lemma writeLog_keeps [simp]:
  "logFile (writeLog l lg) = logFile lg" "initialized (writeLog l lg) = initialized lg"
  "console (writeLog l lg) = console lg @ [l]"
  by (simp_all add: writeLog_def Let_def split: option.split)

lemma handler_lines: "qtMessageHandler toJson m lg = writeLog (log_line toJson m) lg"
  by (simp add: qtMessageHandler_def log_line_def split: prod.split)

lemma file_lines_writeLog:
  "logFile lg = Some path \<Longrightarrow> file_lines (writeLog l lg) = (file_lines lg)(path := file_lines lg path @ [l])"
  by (simp add: writeLog_def)

lemma handled_lines:
  assumes "logFile lg = Some path"
  shows "console (fold (qtMessageHandler toJson) ms lg) = console lg @ map (log_line toJson) ms"
    and "file_lines (fold (qtMessageHandler toJson) ms lg) =
           (file_lines lg)(path := file_lines lg path @ map (log_line toJson) ms)"
    and "initialized (fold (qtMessageHandler toJson) ms lg) = initialized lg"
  using assms by (induction ms arbitrary: lg) (simp_all add: handler_lines file_lines_writeLog)

lemma messages_not_installed: "\<not> installed lg \<Longrightarrow> fold (qt_message toJson) ms lg = lg"
  by (induction ms) (simp_all add: qt_message_def)



end
