(* ===== verification/Client_Main.thy ===== *)
theory Client_Main
  imports Client_Features Client_Shell Json_Log
begin

text \<open>
  The start of the desktop client (\<open>main\<close> of \<open>apps/client/src/main.cpp\<close>): the objects it makes and
  hands to the interface, the search for the interface's main file, and the two ways it can fail.
  Below, the running client's frame provider as a function of the frames its session has shown.
\<close>

section \<open>Start\<close>

text \<open>What \<open>main\<close> is given: the file system and the engine's verdict on a file as functions, the two
  directories, and whether the build has \<open>ENABLE_HOT_RELOAD\<close>.\<close>

record client_start =
  session_startup :: startup
  appDir :: QString
  currentPath :: QString
  exists_file :: "QString \<Rightarrow> bool"
  absoluteFilePath :: "QString \<Rightarrow> QString"
  absolutePath :: "QString \<Rightarrow> QString"
  loads_root :: "QString \<Rightarrow> bool"
  opens_log :: "QString \<Rightarrow> bool"
  hot_reload_build :: bool
  qml_below :: "QString \<Rightarrow> QString list option"

record client_app =
  app_logger :: JsonLogger
  themePalette :: ThemeManager
  frameProvider :: VideoFrameProvider
  sessionClient :: features
  importPaths :: "QString list"
  hotReload :: "HotReloadManager option"
  loadedFile :: "QString option"

definition qml_candidates :: "QString \<Rightarrow> QString \<Rightarrow> QString list" where
  "qml_candidates dir current =
     [dir @ qstr ''/qml/Main.qml'', dir @ qstr ''/../../apps/client/qml/Main.qml'',
      current @ qstr ''/apps/client/qml/Main.qml'', current @ qstr ''/qml/Main.qml'']"

fun resolve_path :: "(QString \<Rightarrow> bool) \<Rightarrow> (QString \<Rightarrow> QString) \<Rightarrow> QString list \<Rightarrow> QString" where
  "resolve_path exists_at absolute [] = []"
| "resolve_path exists_at absolute (path # paths) =
     (if exists_at path then absolute path else resolve_path exists_at absolute paths)"

text \<open>The context objects, made before the search.\<close>

definition client_objects :: "client_start \<Rightarrow> client_app" where
  "client_objects cs =
     \<lparr>app_logger = initialize (opens_log cs) [] json_logger,
      themePalette = theme_manager, frameProvider = video_frame_provider,
      sessionClient = SessionClient (session_startup cs),
      importPaths = [], hotReload = None, loadedFile = None\<rparr>"

text \<open>The objects and the exit code, or \<open>None\<close> when \<open>main\<close> goes on to the event loop.\<close>

definition client_main :: "client_start \<Rightarrow> client_app \<times> int option" where
  "client_main cs =
     (let app = client_objects cs;
          resolvedPath = resolve_path (exists_file cs) (absoluteFilePath cs) (qml_candidates (appDir cs) (currentPath cs))
      in if resolvedPath = [] then (app, Some (-1))
         else
           let qmlDir = absolutePath cs resolvedPath;
               app = app\<lparr>importPaths := importPaths app @ [qmlDir]\<rparr>;
               app = (if hot_reload_build cs
                      then app\<lparr>hotReload := Some (watchDirectory (qml_below cs) qmlDir (hot_reload_manager True))\<rparr>
                      else app);
               app = app\<lparr>loadedFile := Some resolvedPath\<rparr>
           in if \<not> loads_root cs resolvedPath then (app, Some (-1)) else (app, None))"

section \<open>The frame provider of a running session\<close>

text \<open>\<open>main\<close> always hands a provider to the session, which calls \<open>updateFrame\<close> for every frame it
  shows; \<open>shown\<close> lists those calls.\<close>

definition provider_after :: "session \<Rightarrow> VideoFrameProvider" where
  "provider_after st = fold updateFrame (shown st) video_frame_provider"

lemma fold_updateFrame:
  "fold updateFrame imgs fp =
     fp\<lparr>currentFrame := (if imgs = [] then currentFrame fp else ReceivedFrame (last imgs)),
        frameReady := frameReady fp + length imgs\<rparr>"
  by (induction imgs arbitrary: fp) (simp_all add: updateFrame_def Let_def)

lemma provider_after_eq:
  "provider_after st =
     \<lparr>currentFrame = (if shown st = [] then PlaceholderFrame else ReceivedFrame (last (shown st))),
      frameReady = length (shown st)\<rparr>"
  by (simp add: provider_after_def fold_updateFrame video_frame_provider_def)

section \<open>Properties\<close>

lemma resolve_path_find: "resolve_path ex ab ps = (case find ex ps of None \<Rightarrow> [] | Some p \<Rightarrow> ab p)"
  by (induction ps) simp_all

lemma client_main_objects:
  "sessionClient (fst (client_main cs)) = SessionClient (session_startup cs)"
  "frameProvider (fst (client_main cs)) = video_frame_provider"
  "themePalette (fst (client_main cs)) = theme_manager"
  "app_logger (fst (client_main cs)) = json_logger\<lparr>initialized := True\<rparr>"
  by (simp_all add: client_main_def client_objects_def Let_def initialize_def json_logger_def)

text \<open>
  The client ends at once, with code -1, exactly when none of the four places holds the interface
  or the engine cannot load the first that does; by then the session's constructor has run, so a
  host agent is launched although the window never opens.
\<close>

theorem client_start_outcome:
  assumes "\<And>p. absoluteFilePath cs p \<noteq> []"
  shows "(case find (exists_file cs) (qml_candidates (appDir cs) (currentPath cs)) of
       None \<Rightarrow> snd (client_main cs) = Some (-1)
     | Some p \<Rightarrow> loadedFile (fst (client_main cs)) = Some (absoluteFilePath cs p) \<and>
         snd (client_main cs) = (if loads_root cs (absoluteFilePath cs p) then None else Some (-1))) \<and>
    (agent_launched (sessionClient (fst (client_main cs))) \<longleftrightarrow> \<not> port_answers (session_startup cs))"
proof -
  have "agent_launched (sessionClient (fst (client_main cs))) \<longleftrightarrow> \<not> port_answers (session_startup cs)"
    by (simp add: client_main_objects SessionClient_def)
  then show ?thesis
    using assms by (simp add: client_main_def Let_def resolve_path_find split: option.split)
qed

definition demo_client_start :: client_start where
  "demo_client_start =
     \<lparr>session_startup = demo_startup, appDir = qstr ''/opt/rap'', currentPath = qstr ''/home'',
      exists_file = (\<lambda>p. p = qstr ''/home/qml/Main.qml''), absoluteFilePath = (\<lambda>p. 47 # p),
      absolutePath = (\<lambda>p. p), loads_root = (\<lambda>_. True), opens_log = (\<lambda>_. True),
      hot_reload_build = False, qml_below = (\<lambda>_. None)\<rparr>"

theorem client_start_outcome_witness:
  "snd (client_main demo_client_start) = None \<and>
   loadedFile (fst (client_main demo_client_start)) = Some (47 # qstr ''/home/qml/Main.qml'')"
proof -
  have "find (\<lambda>p. p = qstr ''/home/qml/Main.qml'') (qml_candidates (qstr ''/opt/rap'') (qstr ''/home'')) =
      Some (qstr ''/home/qml/Main.qml'')"
    by code_simp
  then show ?thesis
    using client_start_outcome [of demo_client_start] by (simp add: demo_client_start_def)
qed

text \<open>
  \<open>main\<close> prepares the logger and never installs it, so none of the client's messages becomes a
  line of the structured log, on the standard output or in any file.
\<close>

theorem client_logs_nothing:
  "let lg = fold (qt_message toJson) ms (app_logger (fst (client_main cs)))
   in console lg = [] \<and> (\<forall>f. file_lines lg f = [])"
  by (simp add: Let_def client_main_objects messages_not_installed json_logger_def)

end
