(* ===== verification/Protocol_Fuzz.thy ===== *)
theory Protocol_Fuzz
  imports Protocol_Codec
begin

text \<open>
  The fuzzers of \<open>libs/protocol/fuzz\<close>: the entry point for a coverage-guided fuzzer
  (\<open>fuzz_protocol.cpp\<close>) and the test that decodes a million random buffers
  (\<open>fuzz_runner.cpp\<close>). The random generator and its distributions are the standard library's and
  implementation-defined: an argument, with a state of its own.
\<close>

section \<open>The fuzz target\<close>

text \<open>A read behind the pointer handed over, \<open>None\<close> when it would leave the buffer.\<close>

definition load_at :: "host \<Rightarrow> bytes \<Rightarrow> nat \<Rightarrow> 'a::len word option" where
  "load_at H d off =
     (if off + LENGTH('a) div 8 \<le> length d then Some (mem_load H (peek d off (LENGTH('a) div 8))) else None)"

record fuzz_outcome =
  fuzz_decoded :: "ParseResult option"
  fuzz_encoded :: "bytes option"
  fuzz_code :: "32 word"

text \<open>\<open>data\<close> is \<open>None\<close> for a null pointer. What is decoded and encoded is discarded by the code and
  kept here beside the returned code; the whole is \<open>None\<close> for a read out of bounds.\<close>

definition LLVMFuzzerTestOneInput :: "host \<Rightarrow> bytes option \<Rightarrow> fuzz_outcome option" where
  "LLVMFuzzerTestOneInput H data =
     (case data of
        None \<Rightarrow> Some \<lparr>fuzz_decoded = None, fuzz_encoded = None, fuzz_code = 0\<rparr>
      | Some d \<Rightarrow>
          if length d = 0 then Some \<lparr>fuzz_decoded = None, fuzz_encoded = None, fuzz_code = 0\<rparr>
          else
            let res = decode H d
            in if 16 \<le> length d then
                 (case (load_at H d 0, load_at H d 8) of
                    (Some seqNo, Some ts) \<Rightarrow>
                      let body = drop 16 d
                      in Some \<lparr>fuzz_decoded = Some res,
                               fuzz_encoded = Some (encode H FrameHeader seqNo ts body), fuzz_code = 0\<rparr>
                  | _ \<Rightarrow> None)
               else Some \<lparr>fuzz_decoded = Some res, fuzz_encoded = None, fuzz_code = 0\<rparr>)"

section \<open>The random test\<close>

text \<open>A draw gives a 16-bit number and the generator's next state.\<close>

record 'g random_source =
  lenDist :: "'g \<Rightarrow> 16 word \<times> 'g"
  byteDist :: "'g \<Rightarrow> 16 word \<times> 'g"

definition totalIterations :: nat where "totalIterations = 1000000"

fun fuzz_fill :: "'g random_source \<Rightarrow> nat \<Rightarrow> 'g \<Rightarrow> bytes \<times> 'g" where
  "fuzz_fill R 0 gen = ([], gen)"
| "fuzz_fill R (Suc k) gen =
     (let (v, gen) = byteDist R gen; (bs, gen) = fuzz_fill R k gen in (ucast v # bs, gen))"

definition fuzz_buffer :: "'g random_source \<Rightarrow> 'g \<Rightarrow> bytes \<times> 'g" where
  "fuzz_buffer R gen = (let (len, gen) = lenDist R gen in fuzz_fill R (unat len) gen)"

text \<open>The counters \<open>parseErrorsCount\<close> and \<open>validPacketsCount\<close> are \<open>size_t\<close>.\<close>

fun fuzz_loop :: "host \<Rightarrow> 'g random_source \<Rightarrow> nat \<Rightarrow> 'g \<Rightarrow> 64 word \<times> 64 word \<Rightarrow> 64 word \<times> 64 word" where
  "fuzz_loop H R 0 gen (errs, valid) = (errs, valid)"
| "fuzz_loop H R (Suc k) gen (errs, valid) =
     (let (fuzzBuffer, gen) = fuzz_buffer R gen
      in case decode H fuzzBuffer of
           Inr p \<Rightarrow> fuzz_loop H R k gen (errs, valid + 1)
         | Inl err \<Rightarrow> fuzz_loop H R k gen (errs + 1, valid))"

text \<open>Whether \<open>QVERIFY\<close> holds, and the two counts.\<close>

definition fuzz_test :: "host \<Rightarrow> 'g random_source \<Rightarrow> 'g \<Rightarrow> bool \<times> 64 word \<times> 64 word" where
  "fuzz_test H R gen =
     (let (errs, valid) = fuzz_loop H R totalIterations gen (0, 0)
      in (errs + valid = of_nat totalIterations, errs, valid))"

section \<open>Properties\<close>

text \<open>The buffers a run decodes.\<close>

fun fuzz_buffers :: "'g random_source \<Rightarrow> nat \<Rightarrow> 'g \<Rightarrow> bytes list" where
  "fuzz_buffers R 0 gen = []"
| "fuzz_buffers R (Suc k) gen = (let (b, gen) = fuzz_buffer R gen in b # fuzz_buffers R k gen)"

lemma length_fuzz_buffers [simp, size_simps]: "length (fuzz_buffers R k gen) = k"
  by (induction k arbitrary: gen) (auto split: prod.split)

lemma length_fuzz_fill [simp, size_simps]: "length (fst (fuzz_fill R k gen)) = k"
  by (induction k arbitrary: gen) (auto split: prod.split, metis fst_conv)

lemma fuzz_loop_counts:
  "fuzz_loop H R k gen (errs, valid) =
     (errs + of_nat (length (filter (\<lambda>b. isl (decode H b)) (fuzz_buffers R k gen))),
      valid + of_nat (length (filter (\<lambda>b. \<not> isl (decode H b)) (fuzz_buffers R k gen))))"
  by (induction k arbitrary: gen errs valid) (auto split: prod.split sum.split simp: algebra_simps)

text \<open>
  The target returns 0 and reads nothing out of bounds for every input, and for one of at least 16
  bytes (and less than 4 GiB) the packet it encodes decodes to the frame message whose numbers and
  payload are the input's own bytes.
\<close>

theorem fuzz_target_safe:
  "\<exists>out. LLVMFuzzerTestOneInput H data = Some out \<and> fuzz_code out = 0 \<and>
     (\<forall>w. fuzz_encoded out = Some w \<and> length (the data) < 2 ^ 32 \<longrightarrow>
        (\<exists>p. decode H w = Inr p \<and> ptype (header p) = FrameHeader \<and>
           the data = mem_store H (sequenceNumber (header p)) @ mem_store H (timestampMs (header p)) @ payload p))"
proof (cases data)
  case None
  then show ?thesis by (simp add: LLVMFuzzerTestOneInput_def)
next
  case (Some d)
  show ?thesis
  proof (cases "16 \<le> length d")
    case True
    let ?s = "mem_load H (peek d 0 8) :: 64 word" and ?t = "mem_load H (peek d 8 8) :: 64 word"
    have "LLVMFuzzerTestOneInput H data =
        Some \<lparr>fuzz_decoded = Some (decode H d),
              fuzz_encoded = Some (encode H FrameHeader ?s ?t (drop 16 d)), fuzz_code = 0\<rparr>"
      using True Some by (auto simp: LLVMFuzzerTestOneInput_def load_at_def Let_def)
    moreover have "d = mem_store H ?s @ mem_store H ?t @ drop 16 d"
      using True drop_peek [of 0 d 8] drop_peek [of 8 d 8] by (simp add: length_peek)
    moreover have "length d < 2 ^ 32 \<Longrightarrow> decode H (encode H FrameHeader ?s ?t (drop 16 d)) =
        Inr \<lparr>header = \<lparr>magic = MAGIC_HEADER, version = PROTOCOL_VERSION, ptype = FrameHeader,
              sequenceNumber = ?s, timestampMs = ?t, payloadSize = of_nat (length (drop 16 d))\<rparr>,
             payload = drop 16 d\<rparr>"
      using decode_of_encode [of FrameHeader "drop 16 d" H ?s ?t "[]"] by simp
    ultimately show ?thesis using Some by auto
  next
    case False
    then show ?thesis using Some by (simp add: LLVMFuzzerTestOneInput_def Let_def)
  qed
qed

text \<open>
  The random test passes whatever the generator, and its two counts are exact: every buffer is
  either rejected or begins with the encoding of a packet.
\<close>

theorem fuzz_test_counts:
  "fuzz_test H R gen =
     (True,
      of_nat (length (filter (\<lambda>b. \<nexists>t s ts body rest. length body < 2 ^ 32 \<and> wf_payload_type t \<and>
                b = encode H t s ts body @ rest) (fuzz_buffers R totalIterations gen))),
      of_nat (length (filter (\<lambda>b. \<exists>t s ts body rest. length body < 2 ^ 32 \<and> wf_payload_type t \<and>
                b = encode H t s ts body @ rest) (fuzz_buffers R totalIterations gen))))"
proof -
  have valid: "\<not> isl (decode H b) \<longleftrightarrow> (\<exists>t s ts body rest. length body < 2 ^ 32 \<and> wf_payload_type t \<and>
      b = encode H t s ts body @ rest)" for b
  proof
    assume "\<not> isl (decode H b)"
    then obtain p where p: "decode H b = Inr p" by (cases "decode H b") simp_all
    have "wf_payload_type (ptype (header p))"
      using p by (auto simp: decode_Inr_iff packet_of_def)
    moreover have "length (payload p) < 2 ^ 32"
      using decode_reencode(2) [OF p] unat32_bound [of "payloadSize (header p)"] by simp
    ultimately show "\<exists>t s ts body rest. length body < 2 ^ 32 \<and> wf_payload_type t \<and>
        b = encode H t s ts body @ rest"
      using decode_reencode(1) [OF p] by blast
  qed (auto simp: decode_of_encode)
  have "of_nat (length (filter (\<lambda>b. isl (decode H b)) bs)) + of_nat (length (filter (\<lambda>b. \<not> isl (decode H b)) bs)) =
      (of_nat (length bs) :: 64 word)" for bs
    by (simp flip: of_nat_add add: sum_length_filter_compl)
  then show ?thesis
    unfolding valid [symmetric] by (simp add: fuzz_test_def fuzz_loop_counts)
qed

end
