(* ===== verification/Mobile_Api.thy ===== *)
theory Mobile_Api
  imports Protocol_Codec Desk_Identity
begin

text \<open>
  The C interface the mobile applications link against
  (\<open>libs/common/src/rap_mobile_c_api.cpp\<close>). A pointer is \<open>None\<close> (null) or \<open>Some\<close> of the bytes it
  points to; a function returns its code with the buffers as it leaves them. A failing \<open>malloc\<close>
  makes \<open>rap_mobile_decode_packet\<close> copy to a null pointer, which is undefined behaviour: its value
  is then \<open>None\<close>.
\<close>

section \<open>Operations\<close>

record rap_c_packet =
  c_payload_type :: "32 word"
  c_sequence_num :: "64 word"
  c_timestamp_ms :: "64 word"
  c_payload_data :: "bytes option"
  c_payload_size :: nat

definition rap_mobile_init :: "32 word" where "rap_mobile_init = 0"

definition ascii_bytes :: "string \<Rightarrow> bytes" where
  "ascii_bytes s = map of_char s"

definition rap_mobile_get_p2p_id :: "(bytes \<Rightarrow> bytes) \<Rightarrow> bytes \<Rightarrow> bytes option \<Rightarrow> nat \<Rightarrow> int \<times> bytes option" where
  "rap_mobile_get_p2p_id sha256 hardwareData out_buf buf_len =
     (case out_buf of
        None \<Rightarrow> (-1, None)
      | Some buf \<Rightarrow>
          if buf_len < 12 then (-1, Some buf)
          else
            let hash = sha256 hardwareData;
                formatted = ascii_bytes (desk_id hash);
                copyLen = min (length formatted) (buf_len - 1);
                buf = poke buf 0 (take copyLen formatted)
            in (0, Some (poke buf copyLen [0])))"

definition rap_mobile_encode_packet ::
    "host \<Rightarrow> 32 word \<Rightarrow> 64 word \<Rightarrow> 64 word \<Rightarrow> bytes option \<Rightarrow> nat \<Rightarrow> bytes option \<Rightarrow> nat \<Rightarrow> nat option \<Rightarrow>
     int \<times> bytes option \<times> nat option" where
  "rap_mobile_encode_packet H payload_type sequence_num timestamp_ms payload_data payload_len
       out_buf max_out_len written_len =
     (case (out_buf, written_len) of
        (Some buf, Some written) \<Rightarrow>
          let payloadVec = (case payload_data of
                              Some d \<Rightarrow> if 0 < payload_len then take payload_len d else []
                            | None \<Rightarrow> []);
              encoded = encode H (payload_type_cast (ucast payload_type)) sequence_num timestamp_ms payloadVec
          in if max_out_len < length encoded then (-2, out_buf, written_len)
             else (0, Some (poke buf 0 encoded), Some (length encoded))
      | _ \<Rightarrow> (-1, out_buf, written_len))"

definition rap_mobile_decode_packet ::
    "host \<Rightarrow> (nat \<Rightarrow> bool) \<Rightarrow> bytes option \<Rightarrow> nat \<Rightarrow> rap_c_packet option \<Rightarrow> (int \<times> rap_c_packet option) option" where
  "rap_mobile_decode_packet H malloc_ok in_buf in_len out_packet =
     (case (in_buf, out_packet) of
        (Some buf, Some out) \<Rightarrow>
          if in_len < 28 then Some (-1, out_packet)
          else (case decode H (take in_len buf) of
                  Inl _ \<Rightarrow> Some (-2, out_packet)
                | Inr pkt \<Rightarrow>
                    let out = out\<lparr>c_payload_type := ucast (payload_type_value (ptype (header pkt))),
                                  c_sequence_num := sequenceNumber (header pkt),
                                  c_timestamp_ms := timestampMs (header pkt),
                                  c_payload_size := length (payload pkt)\<rparr>
                    in if payload pkt \<noteq> [] then
                         (if malloc_ok (length (payload pkt))
                          then Some (0, Some (out\<lparr>c_payload_data := Some (payload pkt)\<rparr>)) else None)
                       else Some (0, Some (out\<lparr>c_payload_data := None\<rparr>)))
      | _ \<Rightarrow> Some (-1, out_packet))"

text \<open>Freeing: whether \<open>free\<close> is called, and the packet left behind.\<close>

definition rap_mobile_free_packet :: "rap_c_packet option \<Rightarrow> bool \<times> rap_c_packet option" where
  "rap_mobile_free_packet packet =
     (case packet of
        None \<Rightarrow> (False, None)
      | Some p \<Rightarrow> if c_payload_data p \<noteq> None then (True, Some (p\<lparr>c_payload_data := None\<rparr>))
                  else (False, Some p))"

section \<open>Properties\<close>



text \<open>
  Given twelve bytes or more, the interface writes the eleven characters of the desk number and a
  terminating zero, and leaves the rest of the buffer alone; given less it writes nothing.
\<close>

theorem mobile_p2p_id_written:
  assumes "buf_len \<le> length buf"
  shows "rap_mobile_get_p2p_id sha256 hw (Some buf) buf_len =
    (if buf_len < 12 then (-1, Some buf)
     else (0, Some (ascii_bytes (desk_id (sha256 hw)) @ [0] @ drop 12 buf)))"
proof -
  have "length (desk_id (sha256 hw)) = 11" by (rule length_desk_id)
  then show ?thesis
    using assms
    by (simp add: rap_mobile_get_p2p_id_def Let_def ascii_bytes_def poke_def min_def)
qed

theorem mobile_p2p_id_written_witness:
  "rap_mobile_get_p2p_id (\<lambda>_. [1, 2, 3]) [] (Some (replicate 20 7)) 16 =
     (0, Some (ascii_bytes (desk_id [1, 2, 3]) @ [0] @ replicate 8 7))"
  using mobile_p2p_id_written [of 16 "replicate 20 7" "\<lambda>_. [1, 2, 3]" "[]"] by simp

end
