(* ===== verification/Stun_Client.thy ===== *)
theory Stun_Client
  imports Prelude
begin

text \<open>
  The STUN client (\<open>libs/protocol/src/StunClient.cpp\<close>): building a binding request and reading a
  binding response. \<open>htons\<close>, \<open>htonl\<close> and \<open>ntohl\<close> give the word whose bytes in the host's memory are
  those of the argument in network order, or read one back.
\<close>

section \<open>Network byte order\<close>

abbreviation network :: "host \<Rightarrow> host" where
  "network H \<equiv> H\<lparr>host_endian := BigEndian\<rparr>"

definition hton :: "host \<Rightarrow> 'a::len word \<Rightarrow> 'a word" where
  "hton H w = mem_load H (mem_store (network H) w)"

definition ntoh :: "host \<Rightarrow> 'a::len word \<Rightarrow> 'a word" where
  "ntoh H w = mem_load (network H) (mem_store H w)"

section \<open>Operations\<close>

definition STUN_MAGIC_COOKIE_VAL :: "32 word" where "STUN_MAGIC_COOKIE_VAL = 0x2112A442"

definition STUN_MSG_BINDING_REQUEST :: "16 word" where "STUN_MSG_BINDING_REQUEST = 0x0001"

record StunMappedAddress =
  ip :: string
  port :: "16 word"
  isBehindNat :: bool

text \<open>The transaction id is a pointer: absent, or to twelve bytes.\<close>

definition createBindingRequest :: "host \<Rightarrow> bytes option \<Rightarrow> bytes" where
  "createBindingRequest H transactionId =
     (let buf = replicate 20 0;
          msgType = hton H STUN_MSG_BINDING_REQUEST;
          msgLen = (hton H 0 :: 16 word);
          cookie = hton H STUN_MAGIC_COOKIE_VAL;
          buf = poke buf 0 (mem_store H msgType);
          buf = poke buf 2 (mem_store H msgLen);
          buf = poke buf 4 (mem_store H cookie)
      in case transactionId of None \<Rightarrow> buf | Some tid \<Rightarrow> poke buf 8 (take 12 tid))"

definition no_address :: StunMappedAddress where
  "no_address = \<lparr>ip = '''', port = 0, isBehindNat = False\<rparr>"

definition parseBindingResponse :: "host \<Rightarrow> bytes option \<Rightarrow> StunMappedAddress" where
  "parseBindingResponse H response =
     (case response of
        None \<Rightarrow> no_address
      | Some d \<Rightarrow>
          if length d < 20 then no_address
          else if ntoh H (mem_load H (peek d 4 4)) \<noteq> STUN_MAGIC_COOKIE_VAL then no_address
          else no_address\<lparr>ip := ''127.0.0.1'', port := 18443, isBehindNat := False\<rparr>)"

section \<open>Lemmas\<close>

lemma mem_store_hton: "mem_store H (hton H (w :: 'a::len word)) = mem_store (network H) w"
  by (simp add: hton_def)

lemma cookie_bytes: "mem_store (network H) STUN_MAGIC_COOKIE_VAL = [0x21, 0x12, 0xA4, 0x42]"
  by (simp add: mem_store_def STUN_MAGIC_COOKIE_VAL_def le_bytes_def upt_rec drop_bit_eq_div)

lemma request_bytes: "mem_store (network H) STUN_MSG_BINDING_REQUEST = [0x00, 0x01]"
  by (simp add: mem_store_def STUN_MSG_BINDING_REQUEST_def le_bytes_def upt_rec drop_bit_eq_div)

lemma zero_bytes: "mem_store (network H) (0 :: 16 word) = [0, 0]"
  by (simp add: mem_store_def le_bytes_def upt_rec)

theorem stun_request_bytes:
  assumes "length tid = 12"
  shows "createBindingRequest H (Some tid) = [0x00, 0x01, 0x00, 0x00, 0x21, 0x12, 0xA4, 0x42] @ tid"
proof -
  let ?z = "\<lambda>n. replicate n (0 :: byte)"
  have steps: "poke (?z 20) 0 [0x00, 0x01] = [0x00, 0x01] @ ?z 18"
    "poke ([0x00, 0x01] @ ?z 18) 2 [0, 0] = ([0x00, 0x01] @ [0, 0]) @ ?z 16"
    "poke (([0x00, 0x01] @ [0, 0]) @ ?z 16) 4 [0x21, 0x12, 0xA4, 0x42] =
       ([0x00, 0x01] @ [0, 0] @ [0x21, 0x12, 0xA4, 0x42]) @ ?z 12"
    "poke (([0x00, 0x01] @ [0, 0] @ [0x21, 0x12, 0xA4, 0x42]) @ ?z 12) 8 (take 12 tid) =
       ([0x00, 0x01] @ [0, 0] @ [0x21, 0x12, 0xA4, 0x42]) @ tid"
    using assms poke_replicate [of "[0, 1 :: byte]" 2 18 0] poke_replicate [of "[0, 1, 0, 0 :: byte]" 4 16 0]
    by (simp_all add: poke_def)
  show ?thesis
    by (simp only: createBindingRequest_def Let_def option.case mem_store_hton cookie_bytes request_bytes
        zero_bytes steps) simp
qed

text \<open>
  On hosts of either byte order a response is accepted exactly when it has 20 bytes and the magic
  cookie in network order at its fifth, and then the address reported is 127.0.0.1:18443 whatever
  the response says: its mapped address is never read.
\<close>

theorem stun_address_fixed:
  "parseBindingResponse H (Some d) =
     (if 20 \<le> length d \<and> peek d 4 4 = [0x21, 0x12, 0xA4, 0x42]
      then \<lparr>ip = ''127.0.0.1'', port = 18443, isBehindNat = False\<rparr> else no_address)"
proof (cases "20 \<le> length d")
  case True
  then have len: "length (peek d 4 4) = LENGTH(32) div 8" by (simp add: length_peek)
  have "ntoh H (mem_load H (peek d 4 4)) = STUN_MAGIC_COOKIE_VAL \<longleftrightarrow> peek d 4 4 = [0x21, 0x12, 0xA4, 0x42]"
    using mem_load_eq_iff [OF len] cookie_bytes [of H] len by (simp add: ntoh_def)
  then show ?thesis using True by (simp add: parseBindingResponse_def no_address_def)
qed (simp add: parseBindingResponse_def)

end
