(* ===== verification/Spec2Isabelle.thy ===== *)
theory Spec2Isabelle
  imports Remote_Session Agent_Startup Agent_Server Capture_Thread Chacha_Reference Client_Main Protocol_Fuzz Mobile_Api Stun_Client
begin

text \<open>
  The C++ core of the remote access platform: a desktop client (\<open>apps/client\<close>) that shows and controls
  the screen of a host, the host's agent (\<open>apps/agent\<close>), and the libraries both are built on
  (\<open>libs\<close>). Client and agent talk over one TCP connection in packets of a 28-byte header and a
  payload; payloads are encrypted and authenticated under a key both sides have compiled in, with
  the packet's sequence number as nonce. The client sends a password, input events, clipboard
  texts and control actions; the agent sends replies and compressed frames.

  Theories, bottom up, with the code each models.

  \<^item> \<open>Prelude\<close>: bytes in memory. \<open>mem_store\<close> and \<open>mem_load\<close> are \<open>memcpy\<close> of an integer on a
    \<open>host\<close>, whose byte order (and result of an undefined shift) is a parameter; \<open>peek\<close> and
    \<open>poke\<close> read and overwrite a range of a buffer. Undefined behaviour is \<open>None\<close> or a field of the
    host; exceptions are \<open>Inl\<close>.
  \<^item> \<open>Protocol_Codec\<close> (\<open>libs/protocol\<close>, \<open>ProtocolCodec.cpp\<close>): \<open>encode\<close> and \<open>decode\<close>.
    \<open>Protocol_Fuzz\<close>: the fuzz target and the random test of \<open>libs/protocol/fuzz\<close>.
    \<open>Packet_Stream\<close>: the receiving scan as the locale \<open>framed_codec\<close> over any codec, interpreted on
    the code's, with the independence of how a stream is cut.
  \<^item> \<open>Chacha\<close>, \<open>Chacha_Reference\<close>, \<open>Poly_Mac\<close>, \<open>Crypto_Engine\<close> (\<open>libs/security\<close>, \<open>CryptoEngine.cpp\<close>): the stream
    cipher, its block function on a matrix, the authentication tag and the sealed payloads, the last as an interpretation of the
    locale \<open>sealed_box\<close>. \<open>Secure_Channel\<close>: sealed payloads in packets, as both ends make and
    open them; \<open>secure_stream\<close> composes the two locales into a message queue.
  \<^item> \<open>Sha_Digest\<close>, \<open>File_Transfer\<close> (\<open>libs/file_transfer\<close>, \<open>FileTransferEngine.cpp\<close>): SHA-256 against
    FIPS 180-4; listing, chunking and writing files on a map from paths to bytes.
  \<^item> \<open>Input_Backend\<close> (\<open>libs/input\<close>): the X11, Windows and stub backends; what they ask of the platform is
    their result.
  \<^item> \<open>Frame_Analysis\<close>, \<open>Capture\<close>, \<open>Capture_Thread\<close> (\<open>libs/capture\<close>): dirty regions, the mirror shield, bitrate
    control; the four capture backends under one locale \<open>capture_backend\<close>; the capture
    threads, started and stopped by their owners, as interleaved steps.
  \<^item> \<open>Qt_Text\<close>: what the programs use of Qt's strings and compression, as a record of functions with the
    laws relied on (\<open>qt_text\<close>). \<open>Json_Log\<close> (\<open>libs/common/logging\<close>): the logger.
  \<^item> \<open>Agent\<close> (\<open>AgentPacketHandler.h\<close> and the handlers in \<open>main.cpp\<close>), \<open>Agent_Startup\<close> (\<open>main\<close> up to listening,
    with the one-time password), \<open>Agent_Server\<close> (all connections of a running agent at once).
  \<^item> \<open>Session_Client\<close> (\<open>SessionClient.cpp\<close>): connecting, reconnecting, history, sending, receiving, the
    terminal. \<open>Desk_Identity\<close>, \<open>Client_Features\<close>: the rest of the class, on a state that extends
    the session. \<open>Client_Shell\<close>: frame provider, themes, updates and reload. \<open>Client_Main\<close>
    (\<open>main.cpp\<close>): the start of the client, and its frame provider while a session runs.
  \<^item> \<open>Stun_Client\<close> (\<open>StunClient.cpp\<close>), \<open>Mobile_Api\<close> (\<open>rap_mobile_c_api.cpp\<close>).
  \<^item> \<open>Remote_Session\<close> and this theory: client and agent together. \<open>perform\<close> is the specification of
    remote control, a queue of operations; \<open>remote_run\<close> interleaves sending and delivering.
    \<open>started_programs_show_screen\<close> goes from the two \<open>main\<close> functions to a picture.

  Operations keep the names of the code; a name that clashes with another class's has a prefix
  (\<open>x11cap_\<close>, \<open>drm_\<close>, \<open>agent_\<close>, \<open>client_\<close>). A class is a record of its members, in \<open>SessionClient\<close>'s
  case two (\<open>session\<close>, \<open>features\<close>); signals that carry no state are not modelled. Integers keep
  their width as words where the code's arithmetic can wrap, counters of seconds and rows are
  \<open>int\<close> or \<open>nat\<close>. Loops that may not end are \<open>partial_function (option)\<close>: the chunking of files
  (\<open>chunk_loop\<close>) and the agent's read loop (\<open>ready_loop\<close>), each with a theorem on when it returns;
  all others are recursive functions that Isabelle proves total, so no fuel is used anywhere.

  What the lemmas show, by group: round trips and exactness of the codec, of sealing, of chunked
  files and of the C API; equivalence of the optimised loops with their reference definitions
  (key stream, digest, bounding box); invariants of reachable states of the agent's connections,
  of the client and of the capture threads; refinement of the framed, encrypted stream and of the
  whole control direction to message queues; bounds and undefined arithmetic; and, where the
  code falls short of what its documents say, theorems that state precisely what it does.

  Not modelled: the Rust services (\<open>services\<close>), which share no code with these programs; the QML
  interface, Qt's engine and event loop (the slots they call are
  modelled, and every slot runs to completion, as on Qt's main thread); the Dart, Kotlin, Swift
  and HTML front ends; packaging and deployment; tests, whose checks are instances of
  theorems here; log lines, apart from the logger itself. Getters are the fields of the records.
  Qt, X11, Win32, the C library and the operating system are not in the repository: what they
  return is an argument. Rounding of \<open>double\<close> is not modelled.
\<close>

section \<open>Client and agent together\<close>

definition demo_session :: session where
  "demo_session = new_session\<lparr>sock := ConnectedState, requestedPassword := qstr ''admin123''\<rparr>"

definition demo_agent :: agent_state where
  "demo_agent = demo_connection\<lparr>authenticated := True\<rparr>"

definition demo_password_session :: session where
  "demo_password_session = demo_session\<lparr>requestedPassword := formattedOtp 482915\<rparr>"

lemma demo_paired: "paired demo_client demo_env"
  by (simp add: paired_def demo_client_def demo_env_def)

lemma demo_not_loopback: "\<not> isLoopback demo_agent"
  by code_simp





text \<open>
  The frames an agent sends to an authenticated connection, of any number and cut in any way on
  their way, are shown by a client that is not gated, in order, with their sizes and exactly
  their pixels, provided compression can be undone and each compressed frame fits a packet.
\<close>

theorem frames_reach_viewer:
  assumes "paired ce ae" and "\<And>b. qUncompress (client_qt ce) (qCompress (client_qt ce) b) = b"
    and "\<And>f. f \<in> set fs \<Longrightarrow> frame_ok (client_qt ce) f"
    and "authenticated a" and "\<not> closes_at_once ce" and "\<not> renderGated c" and "has_frame_provider ce"
    and "receiveBuffer c = []"
    and "(\<Sum>f\<leftarrow>fs. length (qCompress (client_qt ce) (pixelData f)) + 56) < 2 ^ 32"
  shows "\<exists>ws. send_frames ae fs a = Inr (a\<lparr>written := written a @ ws\<rparr>) \<and> length ws = length fs \<and>
    (\<forall>pieces. concat pieces = concat ws \<longrightarrow>
       foldl (\<lambda>s x. case s of None \<Rightarrow> None | Some s \<Rightarrow> onReadyRead ce x s) (Some c) pieces =
       Some (c\<lparr>shown := shown c @ map frame_shown fs,
               receivedFrames := receivedFrames c + of_nat (length fs)\<rparr>))"
proof -
  have "length (session_key ae) = KEY_SIZE" using assms(1) by (simp add: paired_def)
  then obtain ws where ws: "send_frames ae fs a = Inr (a\<lparr>written := written a @ ws\<rparr>)"
    "map (frame_message ae) fs = map Inr ws"
    using send_frames_writes [OF _ assms(4)] by blast
  moreover have "length ws = length fs" using ws(2) by (metis length_map)
  moreover have "length (concat ws) < 2 ^ 32"
    using length_frame_messages [OF ws(2)] assms(1,3,9) by (simp add: paired_def)
  ultimately show ?thesis
    using frames_shown [OF ws(2) assms(1,3,2,5-8)] by blast
qed

theorem frames_reach_viewer_witness:
  "\<exists>w. send_frames demo_env [demo_frame] demo_agent = Inr (demo_agent\<lparr>written := written demo_agent @ [w]\<rparr>) \<and>
     onReadyRead demo_client w demo_session =
       Some (demo_session\<lparr>shown := [frame_shown demo_frame], receivedFrames := 1\<rparr>)"
proof -
  have "frame_ok (client_qt demo_client) demo_frame"
    by (simp add: frame_ok_def demo_frame_def demo_client_def plain_text_def TAG_SIZE_def)
  moreover have "qUncompress (client_qt demo_client) (qCompress (client_qt demo_client) b) = b" for b
    by (simp add: demo_client_def plain_text_def)
  moreover have "authenticated demo_agent" by (simp add: demo_agent_def)
  moreover have "\<not> closes_at_once demo_client" "has_frame_provider demo_client"
    "\<not> renderGated demo_session" "receiveBuffer demo_session = []"
    by (simp_all add: demo_client_def demo_session_def new_session_def)
  moreover have "(\<Sum>f\<leftarrow>[demo_frame]. length (qCompress (client_qt demo_client) (pixelData f)) + 56) < 2 ^ 32"
    by (simp add: demo_frame_def demo_client_def plain_text_def)
  ultimately obtain ws where ws: "length ws = length [demo_frame]"
    "send_frames demo_env [demo_frame] demo_agent = Inr (demo_agent\<lparr>written := written demo_agent @ ws\<rparr>)"
    "\<And>pieces. concat pieces = concat ws \<Longrightarrow>
       foldl (\<lambda>s x. case s of None \<Rightarrow> None | Some s \<Rightarrow> onReadyRead demo_client x s) (Some demo_session) pieces =
       Some (demo_session\<lparr>shown := shown demo_session @ map frame_shown [demo_frame],
               receivedFrames := receivedFrames demo_session + of_nat (length [demo_frame])\<rparr>)"
    using frames_reach_viewer [OF demo_paired, of "[demo_frame]" demo_agent demo_session] by auto
  then obtain w where "ws = [w]" by (auto simp: length_Suc_conv)
  moreover have "shown demo_session = []" "receivedFrames demo_session = 0"
    by (simp_all add: demo_session_def new_session_def)
  ultimately show ?thesis using ws(2) ws(3) [of "[w]"] by auto
qed


lemma demo_frame_ok: "frame_ok (client_qt demo_client) demo_frame"
  by (simp add: frame_ok_def demo_frame_def demo_client_def plain_text_def TAG_SIZE_def)


text \<open>
  From a started agent to an open session: a client on the same kind of host, given the one-time
  password in the form the agent displays it, is authenticated by the agent's first delivery,
  from whatever address it connects, and the reply makes it show the session as verified.
\<close>

theorem displayed_otp_opens_session:
  assumes "agent_main su = Inr ae" and "otp_drawn (otpNum su)" and "qt_text (client_qt ce)"
    and "start_host su = client_host ce" and "start_qt su = client_qt ce"
    and "\<not> closes_at_once ce" and "sock c = ConnectedState" and "requestedPassword c = formattedOtp (otpNum su)"
  shows "\<exists>w reply a c'. sent (onConnected ce c) = sent c @ [w] \<and>
    agent_readyRead ae w (newConnection (client_qt ce) peer) = Some (Inr a) \<and> authenticated a \<and>
    written a = [reply] \<and> onReadyRead ce reply (onConnected ce c) = Some c' \<and>
    statusText c' = verified_text c"
proof -
  let ?pw = "toUtf8 (client_qt ce) (requestedPassword c)"
  have pw: "?pw \<noteq> []" "length ?pw + TAG_SIZE + 28 < 2 ^ 32"
    using formattedOtp_bytes [OF assms(3,2)] by (simp_all add: assms(8) TAG_SIZE_def)
  have paired: "paired ce ae"
    using assms(1,4,5) by (auto simp: agent_main_result paired_def split: if_splits)
  have accepted: "password_accepted ae ?pw"
    using formattedOtp_accepted [OF _ assms(2,1)] assms(3,5,8) by simp
  show ?thesis
    by (rule login_exchange [OF paired assms(6,7) refl pw, of "newConnection (client_qt ce) peer"])
      (auto simp: accepted setStatus_eq newConnection_def Let_def)
qed

theorem displayed_otp_opens_session_witness:
  "\<exists>ae w a. agent_main demo_start = Inr ae \<and> sent (onConnected demo_client demo_password_session) = [w] \<and>
     agent_readyRead ae w demo_connection = Some (Inr a) \<and> authenticated a"
proof -
  obtain ae where "agent_main demo_start = Inr ae" by (simp add: agent_main_result demo_start_def)
  moreover have "otp_drawn (otpNum demo_start)" "start_host demo_start = client_host demo_client"
    "start_qt demo_start = client_qt demo_client" "qt_text (client_qt demo_client)" "\<not> closes_at_once demo_client"
    by (simp_all add: demo_start_def demo_client_def otp_drawn_def plain_qt_text)
  moreover have "sock demo_password_session = ConnectedState" "sent demo_password_session = []"
    "requestedPassword demo_password_session = formattedOtp (otpNum demo_start)"
    by (simp_all add: demo_password_session_def demo_session_def new_session_def demo_start_def)
  ultimately show ?thesis
    using displayed_otp_opens_session [of demo_start ae demo_client demo_password_session
        "\<lparr>peer_isLoopback = False, peer_text = qstr ''10.0.0.7''\<rparr>"]
    by (auto simp: demo_connection_def demo_client_def)
qed

text \<open>
  Privacy mode reaches the host as a control action the agent does not know: the client shows the
  mode as switched and sends one message, and the agent's connection is left exactly as it was.
\<close>

theorem privacy_mode_no_effect:
  assumes "paired (fe_client env) ae" and "sock (core st) = ConnectedState" and "authenticated a"
  shows "\<exists>w. sent (core (togglePrivacyMode env st)) = sent (core st) @ [w] \<and>
    privacyMode (togglePrivacyMode env st) = (\<not> privacyMode st) \<and>
    agent_readyRead ae w a = Some (Inr a)"
proof -
  let ?op = "Control (if privacyMode st then 5 else 4)"
  have toggled: "core (togglePrivacyMode env st) =
      send_sealed (fe_client env) (op_type ?op) (op_plain (fe_client env) ?op) (core st)"
    using sends_are_ops(2) [OF assms(2)] by (simp add: togglePrivacyMode_def Let_def)
  obtain w where w: "sent (core (togglePrivacyMode env st)) = sent (core st) @ [w]" "op_sealed (fe_client env) ?op w"
    unfolding toggled by (rule sent_op [of "fe_client env" ?op]) simp
  have "length w < 2 ^ 32" using sealed_control_short [OF w(2)] by simp
  then have "agent_readyRead ae w a = Some (Inr (perform ae ?op a))"
    using deliver_ops [OF assms(1), of "[?op]" "[w]" a] w(2) assms(3) by simp
  then show ?thesis using w(1) by (auto simp: togglePrivacyMode_def Let_def)
qed

theorem privacy_mode_no_effect_witness:
  "\<exists>w. sent (core (togglePrivacyMode demo_features ((SessionClient demo_startup)\<lparr>core := demo_session\<rparr>))) = [w] \<and>
     agent_readyRead demo_env w demo_agent = Some (Inr demo_agent)"
proof -
  let ?st = "(SessionClient demo_startup)\<lparr>core := demo_session\<rparr>"
  have "paired (fe_client demo_features) demo_env" using demo_paired by (simp add: demo_features_def)
  moreover have "sock (core ?st) = ConnectedState" "sent (core ?st) = []" "authenticated demo_agent"
    by (simp_all add: demo_session_def new_session_def demo_agent_def)
  ultimately show ?thesis
    using privacy_mode_no_effect [of demo_features demo_env ?st demo_agent] by auto
qed

text \<open>The session of a client that has just started, asked for a host, and reached it.\<close>

definition reached_session :: "client_env \<Rightarrow> QString \<Rightarrow> 16 word \<Rightarrow> QString \<Rightarrow> client_start \<Rightarrow> session" where
  "reached_session ce hostName portNo pw cs =
     (connectToHost ce hostName portNo pw (core (sessionClient (fst (client_main cs)))))\<lparr>sock := ConnectedState\<rparr>"

lemma core_start: "\<exists>h h'. core (SessionClient su) = new_session\<lparr>connectionHistory := h, saved_history := h'\<rparr>"
proof -
  have "core (SessionClient su) = loadConnectionHistory (history_opens su) (history_on_disk su) (day_before su)
      (two_days_before su) new_session"
    by (simp add: SessionClient_def)
  also have "\<exists>h h'. loadConnectionHistory wr hf d1 d2 new_session = new_session\<lparr>connectionHistory := h, saved_history := h'\<rparr>"
    for wr hf d1 d2
    by (cases hf) (auto simp: loadConnectionHistory_def saveConnectionHistory_def new_session_def)
  finally show ?thesis .
qed

lemma reached_session_simps:
  "sock (reached_session ce hostName portNo pw cs) = ConnectedState"
  "requestedPassword (reached_session ce hostName portNo pw cs) = pw"
  "sent (reached_session ce hostName portNo pw cs) = []" "shown (reached_session ce hostName portNo pw cs) = []"
  "\<not> renderGated (reached_session ce hostName portNo pw cs)"
  "\<not> isReconnecting (reached_session ce hostName portNo pw cs)"
proof -
  obtain h h' where "core (SessionClient (session_startup cs)) = new_session\<lparr>connectionHistory := h, saved_history := h'\<rparr>"
    using core_start by blast
  then show "sock (reached_session ce hostName portNo pw cs) = ConnectedState"
    "requestedPassword (reached_session ce hostName portNo pw cs) = pw"
    "sent (reached_session ce hostName portNo pw cs) = []" "shown (reached_session ce hostName portNo pw cs) = []"
    "\<not> renderGated (reached_session ce hostName portNo pw cs)"
    "\<not> isReconnecting (reached_session ce hostName portNo pw cs)"
    by (simp_all add: reached_session_def client_main_objects connectToHost_def socket_connect_def setStatus_eq
        new_session_def Let_def)
qed

lemma onConnected_keeps:
  "shown (onConnected ce c) = shown c" "renderGated (onConnected ce c) = renderGated c"
  by (auto simp: onConnected_def Let_def send_sealed_def setStatus_eq split: sum.split)

text \<open>A reply to a login and the frames behind it, however the stream is cut.\<close>

lemma login_then_frames:
  assumes "map (frame_message ae) fs = map Inr ws" and "paired ce ae"
    and "\<And>f. f \<in> set fs \<Longrightarrow> frame_ok (client_qt ce) f"
    and "\<And>b. qUncompress (client_qt ce) (qCompress (client_qt ce) b) = b"
    and "\<not> closes_at_once ce" and "has_frame_provider ce" and "\<not> renderGated c" and "receiveBuffer c = []"
    and "onReadyRead ce reply c = Some (setStatus text c)"
    and "concat pieces = reply @ concat ws" and "length (concat pieces) < 2 ^ 32"
  shows "\<exists>c'. foldl (\<lambda>s x. case s of None \<Rightarrow> None | Some s \<Rightarrow> onReadyRead ce x s) (Some c) pieces = Some c' \<and>
    statusText c' = text \<and> shown c' = shown c @ map frame_shown fs"
proof -
  let ?deliver = "\<lambda>s pieces. foldl (\<lambda>s x. case s of None \<Rightarrow> None | Some s \<Rightarrow> onReadyRead ce x s) s pieces"
  let ?c = "setStatus text c"
  have "\<not> renderGated ?c" "receiveBuffer ?c = []" using assms(7,8) by (simp_all add: setStatus_eq)
  then have "?deliver (Some ?c) [concat ws] =
      Some (?c\<lparr>shown := shown ?c @ map frame_shown fs, receivedFrames := receivedFrames ?c + of_nat (length fs)\<rparr>)"
    using assms(10,11) by (intro frames_shown [OF assms(1-5) _ assms(6)]) simp_all
  moreover have "?deliver (Some c) pieces = ?deliver (Some c) [reply, concat ws]"
    using assms(10,11) by (intro deliveries_cut [OF assms(5,8)]) simp_all
  ultimately show ?thesis by (simp add: assms(9) setStatus_eq)
qed

text \<open>The login of a fresh client at a fresh agent.\<close>

lemma started_login:
  assumes "agent_main su = Inr ae" and "otp_drawn (otpNum su)" and "qt_text (client_qt ce)"
    and "start_host su = client_host ce" and "start_qt su = client_qt ce" and "\<not> closes_at_once ce"
    and "c = reached_session ce hostName portNo (formattedOtp (otpNum su)) cs"
  obtains w reply s1 where "paired ce ae" and "sent (onConnected ce c) = [w]"
    and "server_read ae 0 w (server_accept ae peer server_start) = Some (Inr s1)"
    and "clients s1 \<noteq> []" and "posted s1 = []" and "is_open (clients s1 ! 0)"
    and "authenticated (conn (clients s1 ! 0))" and "written (conn (clients s1 ! 0)) = [reply]"
    and "onReadyRead ce reply (onConnected ce c) = Some (setStatus (verified_text c) (onConnected ce c))"
    and "length reply = 45"
proof -
  let ?pw = "toUtf8 (client_qt ce) (formattedOtp (otpNum su))"
  let ?a = "newConnection (client_qt ce) peer"
  have pw: "?pw \<noteq> []" "length ?pw + TAG_SIZE + 28 < 2 ^ 32"
    using formattedOtp_bytes [OF assms(3,2)] by (simp_all add: TAG_SIZE_def)
  have paired: "paired ce ae"
    using assms(1,4,5) by (auto simp: agent_main_result paired_def split: if_splits)
  have "password_accepted ae ?pw" using formattedOtp_accepted [OF _ assms(2,1)] assms(3,5) by simp
  moreover have "sock c = ConnectedState" "toUtf8 (client_qt ce) (requestedPassword c) = ?pw" "sent c = []"
    by (simp_all add: assms(7) reached_session_simps)
  ultimately obtain w reply where login: "sent (onConnected ce c) = [w]"
    "agent_readyRead ae w ?a = Some (Inr (?a\<lparr>authenticated := True, written := [reply]\<rparr>))"
    "onReadyRead ce reply (onConnected ce c) = Some (setStatus (verified_text c) (onConnected ce c))"
    "length reply = 45"
    using login_exchange_sized [OF paired assms(6) _ _ pw, of c ?a thesis]
    by (simp add: newConnection_def Let_def)
  obtain p where "server_read ae 0 w (server_accept ae peer server_start) =
      Some (Inr \<lparr>clients = [\<lparr>client_peer = peer, is_open = True,
        conn = ?a\<lparr>authenticated := True, written := [reply]\<rparr>, handled = p\<rparr>], posted = [], sent_frames = []\<rparr>)"
    using login(2) paired by (simp add: server_read_def server_accept_def server_start_def paired_def)
  then show thesis using that [OF paired login(1)] login(3,4) by simp
qed



end
